theory Spec2Isabelle
  imports Complex_Main
begin

section \<open>JavaScript values and row objects\<close>

text \<open>
  The dashboard's rows are flat JavaScript objects. A value is one of the primitives
  that \<open>d3.autoType\<close> and the store's normalisation produce, or a member that a
  row inherits from \<open>Object.prototype\<close>, named by its key. A finite number is the
  real that the double denotes, \<open>NaN\<close> is a value of its own, and the infinities are
  left out. Strings are the bytes of their UTF-8 encoding. A row is the list of its own
  properties in the order \<open>Object.keys\<close> enumerates them.
\<close>

datatype jsval = JUndef | JNull | JBool bool | JNum real | JNaN | JStr string | JObject string

type_synonym row = "(string \<times> jsval) list"

text \<open>
  \<open>d[k]\<close> looks the key up along the prototype chain: an own property first, then the
  members of \<open>Object.prototype\<close> (the rows are ordinary objects, as object literals
  and \<open>d3.csv\<close> make them), and \<open>undefined\<close> when neither has it.
\<close>

definition Object_prototype_keys :: "string list" where
  "Object_prototype_keys =
     [''constructor'', ''__defineGetter__'', ''__defineSetter__'', ''hasOwnProperty'',
      ''__lookupGetter__'', ''__lookupSetter__'', ''isPrototypeOf'', ''propertyIsEnumerable'',
      ''toString'', ''valueOf'', ''__proto__'', ''toLocaleString'']"

definition js_get :: "row \<Rightarrow> string \<Rightarrow> jsval" where
  "js_get d k = (case map_of d k of
                   Some v \<Rightarrow> v
                 | None \<Rightarrow> if k \<in> set Object_prototype_keys then JObject k else JUndef)"

text \<open>Truthiness, as used by \<open>!x\<close>, \<open>x || y\<close> and \<open>if (x)\<close>.\<close>

fun truthy :: "jsval \<Rightarrow> bool" where
  "truthy JUndef = False"
| "truthy JNull = False"
| "truthy (JBool b) = b"
| "truthy (JNum r) = (r \<noteq> 0)"
| "truthy JNaN = False"
| "truthy (JStr s) = (s \<noteq> [])"
| "truthy (JObject n) = True"

definition js_or :: "jsval \<Rightarrow> jsval \<Rightarrow> jsval" where
  "js_or a b = (if truthy a then a else b)"

text \<open>
  Four conversions of the language are not computed here but taken as parameters: the
  parse of a string as a number (\<open>None\<close> for \<open>NaN\<close>), the decimal rendering of a
  number, the string that an inherited member of \<open>Object.prototype\<close> converts to
  (a function's source text, \<open>[object Object]\<close> for the prototype itself), and
  Unicode's \<open>toUpperCase\<close> of a string of one character outside ASCII. Every function
  that coerces takes them in a \<open>js_conv\<close>.
\<close>

record js_conv =
  StringToNumber :: "string \<Rightarrow> real option"
  NumberToString :: "real \<Rightarrow> string"
  ObjectToString :: "string \<Rightarrow> string"
  UpperCase :: "string \<Rightarrow> string"

text \<open>An inherited member read as a number is \<open>NaN\<close>: neither a function's source
  text nor \<open>[object Object]\<close> parses as a number.\<close>

fun ToNumber :: "js_conv \<Rightarrow> jsval \<Rightarrow> real option" where
  "ToNumber cv JUndef = None"
| "ToNumber cv JNull = Some 0"
| "ToNumber cv (JBool b) = Some (if b then 1 else 0)"
| "ToNumber cv (JNum r) = Some r"
| "ToNumber cv JNaN = None"
| "ToNumber cv (JStr s) = StringToNumber cv s"
| "ToNumber cv (JObject n) = None"

fun ToString :: "js_conv \<Rightarrow> jsval \<Rightarrow> string" where
  "ToString cv JUndef = ''undefined''"
| "ToString cv JNull = ''null''"
| "ToString cv (JBool b) = (if b then ''true'' else ''false'')"
| "ToString cv (JNum r) = NumberToString cv r"
| "ToString cv JNaN = ''NaN''"
| "ToString cv (JStr s) = s"
| "ToString cv (JObject n) = ObjectToString cv n"

text \<open>\<open>v >= m\<close> and \<open>v <= m\<close> for a number \<open>m\<close>: the other operand is coerced to a
  number, and a comparison with \<open>NaN\<close> is false.\<close>

definition js_ge :: "js_conv \<Rightarrow> jsval \<Rightarrow> real \<Rightarrow> bool" where
  "js_ge cv v m = (case ToNumber cv v of None \<Rightarrow> False | Some r \<Rightarrow> m \<le> r)"

definition js_le :: "js_conv \<Rightarrow> jsval \<Rightarrow> real \<Rightarrow> bool" where
  "js_le cv v m = (case ToNumber cv v of None \<Rightarrow> False | Some r \<Rightarrow> r \<le> m)"

text \<open>
  Arithmetic on numbers is IEEE 754 double precision: the exact result is rounded to
  the nearest double, a tie going to the even significand. \<open>rne\<close> rounds a real to the
  nearest integer in that way, \<open>binade\<close> is the exponent of the power of two at or
  below the magnitude, and \<open>fl\<close> rounds to 53 significant bits. The exponent is not
  bounded: overflow to an infinity and the subnormal range are left out, as the
  infinities are.
\<close>

definition rne :: "real \<Rightarrow> int" where
  "rne y = (let f = \<lfloor>y\<rfloor>
            in if y - of_int f < 1 / 2 then f
               else if y - of_int f > 1 / 2 then f + 1
               else if even f then f else f + 1)"

definition binade :: "real \<Rightarrow> int" where
  "binade x = \<lfloor>log 2 \<bar>x\<bar>\<rfloor>"

definition fl :: "real \<Rightarrow> real" where
  "fl x = (if x = 0 then 0
           else (let q = 2 powi (binade x - 52) in q * of_int (rne (x / q))))"

text \<open>\<open>a + b\<close>: both operands are made primitive (an inherited member becomes its
  string); then it is concatenation as soon as one operand is a string, and the
  addition of doubles otherwise.\<close>

fun ToPrimitive :: "js_conv \<Rightarrow> jsval \<Rightarrow> jsval" where
  "ToPrimitive cv (JObject n) = JStr (ObjectToString cv n)"
| "ToPrimitive cv v = v"

fun add_primitive :: "js_conv \<Rightarrow> jsval \<Rightarrow> jsval \<Rightarrow> jsval" where
  "add_primitive cv (JStr s) b = JStr (s @ ToString cv b)"
| "add_primitive cv a (JStr s) = JStr (ToString cv a @ s)"
| "add_primitive cv a b = (case (ToNumber cv a, ToNumber cv b) of
                             (Some x, Some y) \<Rightarrow> JNum (fl (x + y)) | _ \<Rightarrow> JNaN)"

definition js_add :: "js_conv \<Rightarrow> jsval \<Rightarrow> jsval \<Rightarrow> jsval" where
  "js_add cv a b = add_primitive cv (ToPrimitive cv a) (ToPrimitive cv b)"

text \<open>\<open>b - a\<close> as a sort comparator's result, a subtraction of doubles;
  \<open>Array.prototype.sort\<close> reads a \<open>NaN\<close> result as \<open>0\<close>.\<close>

definition js_sub_cmp :: "js_conv \<Rightarrow> jsval \<Rightarrow> jsval \<Rightarrow> real" where
  "js_sub_cmp cv b a = (case (ToNumber cv b, ToNumber cv a) of
                          (Some x, Some y) \<Rightarrow> fl (x - y) | _ \<Rightarrow> 0)"

text \<open>\<open>Array.prototype.sort\<close> with a comparator, as a stable insertion sort: \<open>a\<close>
  stays before \<open>b\<close> unless the comparator is positive.\<close>

fun insort_cmp :: "('a \<Rightarrow> 'a \<Rightarrow> real) \<Rightarrow> 'a \<Rightarrow> 'a list \<Rightarrow> 'a list" where
  "insort_cmp cmp a [] = [a]"
| "insort_cmp cmp a (b # bs) = (if cmp a b \<le> 0 then a # b # bs else b # insort_cmp cmp a bs)"

definition js_sort :: "('a \<Rightarrow> 'a \<Rightarrow> real) \<Rightarrow> 'a list \<Rightarrow> 'a list" where
  "js_sort cmp xs = foldr (insort_cmp cmp) xs []"


text \<open>An insertion-ordered \<open>Map\<close>: \<open>set\<close> overwrites in place or appends.\<close>

type_synonym jsmap = "(jsval \<times> jsval) list"

definition map_get :: "jsmap \<Rightarrow> jsval \<Rightarrow> jsval" where
  "map_get m k = (case map_of m k of None \<Rightarrow> JUndef | Some v \<Rightarrow> v)"

definition map_has :: "jsmap \<Rightarrow> jsval \<Rightarrow> bool" where
  "map_has m k = (map_of m k \<noteq> None)"

fun map_set :: "jsmap \<Rightarrow> jsval \<Rightarrow> jsval \<Rightarrow> jsmap" where
  "map_set [] k v = [(k, v)]"
| "map_set ((k', v') # m) k v = (if k' = k then (k, v) # m else (k', v') # map_set m k v)"

section \<open>The trade store: filter state (tradeStore.js)\<close>

text \<open>
  The zustand store holds the four dataset arrays (\<open>null\<close> before loading), the
  loading and error flags and the \<open>filters\<close> object. \<open>set(partial)\<close> merges the
  partial state into the store shallowly, so a setter that passes only \<open>filters\<close>
  replaces that one field.
\<close>

record tradeStore =
  usAggregated :: "row list option"
  txBorderPorts :: "row list option"
  btsUsState :: "row list option"
  masterData :: "row list option"
  loading :: bool
  error :: "string option"
  filters :: "string \<rightharpoonup> string"

definition filter_keys :: "string list" where
  "filter_keys = [''year'', ''tradeType'', ''mode'', ''state'', ''commodityGroup'', ''port'']"

text \<open>\<open>filters: { ...state.filters, [key]: value }\<close>\<close>

definition setFilter :: "string \<Rightarrow> string \<Rightarrow> tradeStore \<Rightarrow> tradeStore" where
  "setFilter key v s = s\<lparr>filters := (filters s)(key \<mapsto> v)\<rparr>"

text \<open>\<open>filters: { year: '', tradeType: '', mode: '', state: '', commodityGroup: '', port: '' }\<close>\<close>

definition resetFilters :: "tradeStore \<Rightarrow> tradeStore" where
  "resetFilters s = s\<lparr>filters :=
     [''year'' \<mapsto> [], ''tradeType'' \<mapsto> [], ''mode'' \<mapsto> [], ''state'' \<mapsto> [],
      ''commodityGroup'' \<mapsto> [], ''port'' \<mapsto> [] ]\<rparr>"

definition initial_store :: tradeStore where
  "initial_store = \<lparr>usAggregated = None, txBorderPorts = None, btsUsState = None,
     masterData = None, loading = True, error = None,
     filters = [''year'' \<mapsto> [], ''tradeType'' \<mapsto> [], ''mode'' \<mapsto> [], ''state'' \<mapsto> [],
      ''commodityGroup'' \<mapsto> [], ''port'' \<mapsto> [] ]\<rparr>"

definition same_data_and_flags :: "tradeStore \<Rightarrow> tradeStore \<Rightarrow> bool" where
  "same_data_and_flags s t \<longleftrightarrow>
     usAggregated t = usAggregated s \<and> txBorderPorts t = txBorderPorts s \<and>
     btsUsState t = btsUsState s \<and> masterData t = masterData s \<and>
     loading t = loading s \<and> error t = error s"

section \<open>The chart card: range-scoped download data (ChartCard.jsx)\<close>

text \<open>
  A child line chart reports the visible range \<open>{ xKey, min, max }\<close>, or \<open>null\<close>.
  The card's download payload has an optional \<open>summary\<close> and an optional
  \<open>detail\<close> entry, each with a \<open>data\<close> array (possibly absent) and a file name;
  any other property of the payload is carried along by the spread.
\<close>

record zoomRange =
  xKey :: string
  zmin :: real
  zmax :: real

record download_entry =
  data :: "row list option"
  filename :: string

record downloadData =
  summary :: "download_entry option"
  detail :: "download_entry option"

text \<open>
  \<open>String.prototype.toUpperCase\<close> of a string of one UTF-16 code unit, given by the
  bytes of its encoding. An ASCII character is looked up in the table of the letters a
  to z and kept when it is no letter. Any other character of the basic plane (two or
  three bytes) is capitalised as Unicode says, which can give more than one character.
  \<open>charAt(0)\<close> of a string that starts with a character beyond the basic plane (four
  bytes) is a lone surrogate, which \<open>toUpperCase\<close> keeps.
\<close>

definition utf8_length :: "char \<Rightarrow> nat" where
  "utf8_length c = (if (of_char c :: nat) < 128 then 1 else if (of_char c :: nat) < 224 then 2
                    else if (of_char c :: nat) < 240 then 3 else 4)"

definition toUpperCase :: "js_conv \<Rightarrow> string \<Rightarrow> string" where
  "toUpperCase cv u =
     (case u of
        [c] \<Rightarrow> (case map_of (zip ''abcdefghijklmnopqrstuvwxyz'' ''ABCDEFGHIJKLMNOPQRSTUVWXYZ'') c of
                  Some C \<Rightarrow> [C]
                | None \<Rightarrow> if (of_char c :: nat) < 128 then [c] else UpperCase cv u)
      | _ \<Rightarrow> UpperCase cv u)"

text \<open>\<open>xKey.charAt(0).toUpperCase() + xKey.slice(1)\<close>\<close>

definition capKey :: "js_conv \<Rightarrow> string \<Rightarrow> string" where
  "capKey cv s =
     (case s of
        [] \<Rightarrow> []
      | c # cs \<Rightarrow> if utf8_length c = 4 then s
                  else toUpperCase cv (take (utf8_length c) s) @ drop (utf8_length c) s)"

text \<open>
  \<open>filterArr\<close>: an absent or empty array is returned as it is. Otherwise the key is
  \<open>xKey\<close> if the first row has it, else the capitalised variant if the first row has
  that, else \<open>null\<close>; \<open>if (!key) return arr\<close> gives the array back for \<open>null\<close> and
  for the empty string alike. A row has a field when \<open>arr[0][key] !== undefined\<close>,
  whether the property is its own or inherited.
\<close>

definition filterArr :: "js_conv \<Rightarrow> zoomRange \<Rightarrow> row list option \<Rightarrow> row list option" where
  "filterArr cv z arr =
     (case arr of
        None \<Rightarrow> arr
      | Some [] \<Rightarrow> arr
      | Some (first # rest) \<Rightarrow>
          (let key = (if js_get first (xKey z) \<noteq> JUndef then Some (xKey z)
                      else if js_get first (capKey cv (xKey z)) \<noteq> JUndef
                      then Some (capKey cv (xKey z))
                      else None)
           in case key of
                None \<Rightarrow> arr
              | Some k \<Rightarrow>
                  if k = [] then arr
                  else Some (filter (\<lambda>d. js_ge cv (js_get d k) (zmin z) \<and> js_le cv (js_get d k) (zmax z))
                               (first # rest))))"

definition effectiveDownloadData ::
  "js_conv \<Rightarrow> 'a downloadData_scheme option \<Rightarrow> zoomRange option \<Rightarrow> 'a downloadData_scheme option" where
  "effectiveDownloadData cv dl zoom =
     (case dl of
        None \<Rightarrow> dl
      | Some p \<Rightarrow>
          (case zoom of
             None \<Rightarrow> dl
           | Some z \<Rightarrow> Some (p\<lparr>
               summary := (case summary p of
                             Some e \<Rightarrow> Some (e\<lparr>data := filterArr cv z (data e)\<rparr>) | None \<Rightarrow> None),
               detail := (case detail p of
                            Some e \<Rightarrow> Some (e\<lparr>data := filterArr cv z (data e)\<rparr>) | None \<Rightarrow> None)\<rparr>)))"

text \<open>A row's axis value lies within the range: its field, read as a number, is
  between \<open>min\<close> and \<open>max\<close> inclusive.\<close>

definition axis_in_range :: "js_conv \<Rightarrow> zoomRange \<Rightarrow> string \<Rightarrow> row \<Rightarrow> bool" where
  "axis_in_range cv z k d =
     (case ToNumber cv (js_get d k) of None \<Rightarrow> False | Some r \<Rightarrow> zmin z \<le> r \<and> r \<le> zmax z)"

text \<open>A conversion instance for the examples below, none of which converts between
  strings and numbers, renders an inherited member or capitalises a character outside
  ASCII.\<close>

definition example_conv :: js_conv where
  "example_conv = \<lparr>StringToNumber = Map.empty, NumberToString = (\<lambda>r. []),
     ObjectToString = (\<lambda>n. []), UpperCase = (\<lambda>u. u)\<rparr>"

section \<open>The line chart: zoom and tooltip (LineChart.jsx)\<close>

text \<open>The x column of the data, \<open>data.map((d) => d[xKey])\<close>, and the number of its
  distinct values, \<open>new Set(...).size\<close>.\<close>

definition xValues :: "row list \<Rightarrow> string \<Rightarrow> jsval list" where
  "xValues rows xk = map (\<lambda>d. js_get d xk) rows"

definition uniqueX :: "row list \<Rightarrow> string \<Rightarrow> nat" where
  "uniqueX rows xk = length (remdups (xValues rows xk))"

text \<open>\<open>const maxZoom = uniqueX > 3 ? Math.ceil(uniqueX / 3) : 1\<close>\<close>

definition maxZoom :: "row list \<Rightarrow> string \<Rightarrow> int" where
  "maxZoom rows xk = (if uniqueX rows xk > 3 then \<lceil>real (uniqueX rows xk) / 3\<rceil> else 1)"

text \<open>
  What one run of the effect does to the zoom behaviour that the SVG carries: the
  \<open>scaleExtent\<close> maximum of the behaviour attached to the overlay, or nothing when
  there is no overlay or the overlay has no zoom listeners. The guard
  \<open>if (!data.length || !width) return\<close> comes before
  \<open>svg.selectAll('*').remove()\<close>, and the effect's cleanup removes only the tooltip,
  so a guarded run leaves the overlay of the previous run and its listeners in place.
  A run past the guard clears the SVG, appends a new overlay and attaches a zoom
  behaviour (\<open>overlay.call(zoom)\<close>) only under \<open>if (maxZoom > 1)\<close>. The measured
  width is a floored pixel count.
\<close>

definition LineChart_zoom :: "row list \<Rightarrow> nat \<Rightarrow> string \<Rightarrow> int option \<Rightarrow> int option" where
  "LineChart_zoom rows width xk before =
     (if length rows = 0 \<or> width = 0 then before
      else if maxZoom rows xk > 1 then Some (maxZoom rows xk) else None)"

text \<open>\<open>innerW = Math.max(1, width - margin.left - margin.right)\<close>, with the margins
  of the normal and of the fullscreen layout.\<close>

definition innerW :: "nat \<Rightarrow> bool \<Rightarrow> real" where
  "innerW width isFullscreen =
     max 1 (real width - (if isFullscreen then 100 else 80) - (if isFullscreen then 36 else 28))"

text \<open>
  \<open>d3.extent\<close> over the x column: the least and the greatest value, \<open>null\<close>,
  \<open>undefined\<close> and \<open>NaN\<close> skipped, and nothing (\<open>[undefined, undefined]\<close>) when
  no value is left. The model reads number-valued columns, which is the component's
  contract for \<open>xKey\<close>.
\<close>

definition numbers :: "jsval list \<Rightarrow> real list" where
  "numbers vs = [r. JNum r \<leftarrow> vs]"

definition d3_extent :: "jsval list \<Rightarrow> (real \<times> real) option" where
  "d3_extent vs = (case numbers vs of [] \<Rightarrow> None | r # rs \<Rightarrow> Some (fold min rs r, fold max rs r))"

text \<open>
  A continuous linear scale of d3, by its two-point domain and range. The methods of
  d3 below are written with the operations that d3's source performs, each one an
  operation on doubles that rounds its exact result (\<open>fl\<close>). Transforms have a
  positive \<open>k\<close>.
\<close>

record scaleLinear =
  dom0 :: real
  dom1 :: real
  rng0 :: real
  rng1 :: real

text \<open>\<open>scale.invert\<close>: the range is normalised to \<open>[0, 1]\<close> by
  \<open>(x - a) / b\<close> with \<open>b = r1 - r0\<close> (a degenerate range gives one half) and the
  domain interpolated as \<open>a * (1 - t) + b * t\<close>.\<close>

definition scale_invert :: "scaleLinear \<Rightarrow> real \<Rightarrow> real" where
  "scale_invert s p =
     (let b = fl (rng1 s - rng0 s);
          t = (if b = 0 then 1 / 2 else fl (fl (p - rng0 s) / b))
      in fl (fl (dom0 s * fl (1 - t)) + fl (dom1 s * t)))"

text \<open>A zoom transform \<open>{k, x, y}\<close> of d3, with \<open>transform.invertX\<close>, which is
  \<open>(x - this.x) / this.k\<close>, and \<open>transform.rescaleX\<close>: the rescaled copy's domain
  is the scale's range, pulled back through the transform and then through the
  scale.\<close>

record transform =
  tk :: real
  tx :: real
  ty :: real

definition invertX :: "transform \<Rightarrow> real \<Rightarrow> real" where
  "invertX t p = fl (fl (p - tx t) / tk t)"

definition rescaleX :: "transform \<Rightarrow> scaleLinear \<Rightarrow> scaleLinear" where
  "rescaleX t s = s\<lparr>dom0 := scale_invert s (invertX t (rng0 s)),
                    dom1 := scale_invert s (invertX t (rng1 s))\<rparr>"

text \<open>\<open>x = d3.scaleLinear().domain(d3.extent(data, (d) => d[xKey])).range([0, innerW])\<close>,
  of which \<open>x0\<close> is the unzoomed copy.\<close>

definition x_scale :: "row list \<Rightarrow> string \<Rightarrow> real \<Rightarrow> scaleLinear option" where
  "x_scale rows xk iw =
     (case d3_extent (xValues rows xk) of
        None \<Rightarrow> None
      | Some (lo, hi) \<Rightarrow> Some \<lparr>dom0 = lo, dom1 = hi, rng0 = 0, rng1 = iw\<rparr>)"

text \<open>
  What the zoom handler sends to the card. \<open>setZoomRange\<close> is the context value: the
  card's state setter, or \<open>null\<close> outside a card, in which case nothing is sent.
\<close>

datatype report = NotReported | SetZoomRange "zoomRange option"

definition zoom_report :: "bool \<Rightarrow> string \<Rightarrow> scaleLinear \<Rightarrow> transform \<Rightarrow> report" where
  "zoom_report has_listener xk x0 t =
     (if has_listener then
        (if tk t > 1 then
           (let currentX = rescaleX t x0
            in SetZoomRange (Some \<lparr>xKey = xk, zmin = of_int \<lceil>dom0 currentX\<rceil>,
                                    zmax = of_int \<lfloor>dom1 currentX\<rfloor>\<rparr>))
         else SetZoomRange None)
      else NotReported)"

text \<open>The card's \<open>zoomRange\<close> state after a report: \<open>useState\<close>'s setter stores what
  it is given.\<close>

definition zoomRange_after :: "report \<Rightarrow> zoomRange option \<Rightarrow> zoomRange option" where
  "zoomRange_after r old = (case r of NotReported \<Rightarrow> old | SetZoomRange v \<Rightarrow> v)"

text \<open>
  The part of the chart's interactive state that the handlers write: the rescaled x
  scale, the tooltip (hidden, or a header and one line per series shown), the guide
  line and the reset button.
\<close>

record chart_ui =
  currentX :: scaleLinear
  tooltip :: "(int \<times> (string \<times> jsval) list) option"
  guideLine_shown :: bool
  resetBtn_shown :: bool

text \<open>The \<open>zoom\<close> event handler: the scale is rescaled, the tooltip and the guide line
  are hidden, the reset button shows while \<open>t.k > 1\<close>, and the range is reported.\<close>

definition on_zoom ::
  "bool \<Rightarrow> string \<Rightarrow> scaleLinear \<Rightarrow> transform \<Rightarrow> chart_ui \<Rightarrow> chart_ui \<times> report" where
  "on_zoom has_listener xk x0 t ui =
     (ui\<lparr>currentX := rescaleX t x0, tooltip := None, guideLine_shown := False,
         resetBtn_shown := (tk t > 1)\<rparr>,
      zoom_report has_listener xk x0 t)"




section \<open>Page aggregators (Home page, chat responder)\<close>

text \<open>
  \<open>groupAndSum(data, key)\<close>: rows whose label is falsy are skipped; the others add
  \<open>d.TradeValue || 0\<close> to their label's entry, \<open>map.get(label) || 0\<close> standing for
  a missing entry. The entries come out as \<open>{label, value}\<close> pairs sorted by
  \<open>b.value - a.value\<close>.
\<close>

definition groupAndSum_step :: "js_conv \<Rightarrow> string \<Rightarrow> row \<Rightarrow> jsmap \<Rightarrow> jsmap" where
  "groupAndSum_step cv key d m =
     (let label = js_get d key
      in if \<not> truthy label then m
         else map_set m label
                (js_add cv (js_or (map_get m label) (JNum 0))
                           (js_or (js_get d ''TradeValue'') (JNum 0))))"

definition by_value_desc :: "js_conv \<Rightarrow> jsval \<times> jsval \<Rightarrow> jsval \<times> jsval \<Rightarrow> real" where
  "by_value_desc cv a b = js_sub_cmp cv (snd b) (snd a)"

definition groupAndSum :: "js_conv \<Rightarrow> row list \<Rightarrow> string \<Rightarrow> (jsval \<times> jsval) list" where
  "groupAndSum cv rows key = js_sort (by_value_desc cv) (fold (groupAndSum_step cv key) rows [])"

text \<open>
  \<open>modeData\<close> of the Home page, the trade-by-mode grouping: nothing before the data is
  loaded; rows without a \<open>Mode\<close> are skipped; a mode seen for the first time is entered
  with 0 before the row's value is added.
\<close>

definition modeData_step :: "js_conv \<Rightarrow> row \<Rightarrow> jsmap \<Rightarrow> jsmap" where
  "modeData_step cv d byMode =
     (if \<not> truthy (js_get d ''Mode'') then byMode
      else (let m1 = (if \<not> map_has byMode (js_get d ''Mode'')
                      then map_set byMode (js_get d ''Mode'') (JNum 0) else byMode)
            in map_set m1 (js_get d ''Mode'')
                 (js_add cv (map_get m1 (js_get d ''Mode''))
                            (js_or (js_get d ''TradeValue'') (JNum 0)))))"

definition modeData :: "js_conv \<Rightarrow> row list option \<Rightarrow> (jsval \<times> jsval) list" where
  "modeData cv usAgg =
     (case usAgg of
        None \<Rightarrow> []
      | Some rows \<Rightarrow> js_sort (by_value_desc cv) (fold (modeData_step cv) rows []))"

text \<open>
  \<open>topStates\<close> of the Home page: the rows of the selected mode, if one is selected,
  grouped by \<open>State\<close> in the same way; entries whose label is falsy or the string
  \<open>undefined\<close> are dropped, and of the entries sorted by value the first ten are
  kept.
\<close>

definition topStates_step :: "js_conv \<Rightarrow> row \<Rightarrow> jsmap \<Rightarrow> jsmap" where
  "topStates_step cv d byState =
     (if \<not> truthy (js_get d ''State'') then byState
      else (let m1 = (if \<not> map_has byState (js_get d ''State'')
                      then map_set byState (js_get d ''State'') (JNum 0) else byState)
            in map_set m1 (js_get d ''State'')
                 (js_add cv (map_get m1 (js_get d ''State''))
                            (js_or (js_get d ''TradeValue'') (JNum 0)))))"

definition topStates :: "js_conv \<Rightarrow> row list option \<Rightarrow> jsval \<Rightarrow> (jsval \<times> jsval) list" where
  "topStates cv usState selectedMode =
     (case usState of
        None \<Rightarrow> []
      | Some rows \<Rightarrow>
          (let source = (if truthy selectedMode
                         then filter (\<lambda>d. js_get d ''Mode'' = selectedMode) rows else rows)
           in take 10 (js_sort (by_value_desc cv)
                (filter (\<lambda>d. truthy (fst d) \<and> fst d \<noteq> JStr ''undefined'')
                   (fold (topStates_step cv) source [])))))"

text \<open>
  The two sums that the code itself takes: \<open>sumTradeValue\<close> over rows, which is
  \<open>data.reduce((sum, d) => sum + (d.TradeValue || 0), 0)\<close>, and the total of a
  series as the chat responder takes it, \<open>byMode.reduce((s, m) => s + m.value, 0)\<close>.
  Both add doubles from left to right.
\<close>

definition sumTradeValue :: "js_conv \<Rightarrow> row list \<Rightarrow> jsval" where
  "sumTradeValue cv rows =
     fold (\<lambda>d sum. js_add cv sum (js_or (js_get d ''TradeValue'') (JNum 0))) rows (JNum 0)"

definition series_total :: "js_conv \<Rightarrow> (jsval \<times> jsval) list \<Rightarrow> jsval" where
  "series_total cv series = fold (\<lambda>m s. js_add cv s (snd m)) series (JNum 0)"

text \<open>
  The rows that carry a label, the exact sum of their values, and the condition under
  which no addition rounds: every value \<open>d.TradeValue || 0\<close> is an integer number and
  the magnitudes add up to at most \<open>2^53\<close>.
\<close>

definition labelled :: "string \<Rightarrow> row list \<Rightarrow> row list" where
  "labelled key rows = filter (\<lambda>d. truthy (js_get d key)) rows"

definition num_value :: "jsval \<Rightarrow> real" where
  "num_value v = (case v of JNum r \<Rightarrow> r | _ \<Rightarrow> 0)"

definition row_value :: "row \<Rightarrow> jsval" where
  "row_value d = js_or (js_get d ''TradeValue'') (JNum 0)"

definition rows_total :: "row list \<Rightarrow> real" where
  "rows_total rows = sum_list (map (\<lambda>d. num_value (row_value d)) rows)"

definition is_integer :: "jsval \<Rightarrow> bool" where
  "is_integer v = (case v of JNum r \<Rightarrow> r = of_int \<lfloor>r\<rfloor> | _ \<Rightarrow> False)"

definition exact_values :: "row list \<Rightarrow> bool" where
  "exact_values rows \<longleftrightarrow>
     list_all (\<lambda>d. is_integer (row_value d)) rows \<and>
     sum_list (map (\<lambda>d. \<bar>num_value (row_value d)\<bar>) rows) \<le> 2 ^ 53"

text \<open>The numbers held by a series, and a series all of whose values are integer
  numbers.\<close>

definition series_values :: "(jsval \<times> jsval) list \<Rightarrow> real list" where
  "series_values m = map (\<lambda>p. num_value (snd p)) m"

definition integer_series :: "(jsval \<times> jsval) list \<Rightarrow> bool" where
  "integer_series m = list_all (\<lambda>p. is_integer (snd p)) m"
section \<open>Export utilities (downloadCsv.js, exportPng.js)\<close>

text \<open>
  What an export does to the outside world: it triggers a browser download of a file
  with a name and a content, or it logs a warning. Text is a string of bytes (UTF-8), in
  which the byte-order mark \<open>U+FEFF\<close> is three bytes.
\<close>

datatype effect = DownloadFile string string | ConsoleWarn string

definition BOM :: string where
  "BOM = [CHR 0xEF, CHR 0xBB, CHR 0xBF]"

text \<open>The test \<open>/[,"\n\r]/\<close> on one character, and \<open>str.replace(/"/g, '""')\<close>.\<close>

definition csv_special :: "char \<Rightarrow> bool" where
  "csv_special c \<longleftrightarrow> c = CHR '','' \<or> c = CHR 0x22 \<or> c = CHR 0x0A \<or> c = CHR 0x0D"

definition quote_doubled :: "string \<Rightarrow> string" where
  "quote_doubled s = concat (map (\<lambda>c. if c = CHR 0x22 then [CHR 0x22, CHR 0x22] else [c]) s)"

text \<open>One cell: empty for \<open>null\<close> and \<open>undefined\<close> (\<open>v == null\<close>), else \<open>String(v)\<close>,
  wrapped in quotes with its quotes doubled if it contains a comma, a quote or a line
  break.\<close>

definition csv_cell :: "js_conv \<Rightarrow> jsval \<Rightarrow> string" where
  "csv_cell cv v =
     (if v = JNull \<or> v = JUndef then []
      else (let str = ToString cv v
            in if list_ex csv_special str then CHR 0x22 # quote_doubled str @ [CHR 0x22]
               else str))"

text \<open>\<open>Array.prototype.join\<close> on strings.\<close>

fun join :: "string \<Rightarrow> string list \<Rightarrow> string" where
  "join sep [] = []"
| "join sep [x] = x"
| "join sep (x # y # ys) = x @ sep @ join sep (y # ys)"

text \<open>
  \<open>downloadCsv(data, filename = 'data')\<close>: nothing for an absent or empty array;
  otherwise the columns are the first row's keys, the header is the keys joined by
  commas as they are, every row is its cells at those keys joined by commas, the lines
  are joined by line feeds, and the file is the byte-order mark followed by that text.
\<close>

definition downloadCsv :: "js_conv \<Rightarrow> row list option \<Rightarrow> string option \<Rightarrow> effect list" where
  "downloadCsv cv dat fname =
     (case dat of
        None \<Rightarrow> []
      | Some [] \<Rightarrow> []
      | Some (first # rest) \<Rightarrow>
          (let keys = map fst first;
               header = join '','' keys;
               rows = map (\<lambda>row. join '','' (map (\<lambda>k. csv_cell cv (js_get row k)) keys)) (first # rest);
               csv = join [CHR 0x0A] (header # rows)
           in [DownloadFile ((case fname of None \<Rightarrow> ''data'' | Some f \<Rightarrow> f) @ ''.csv'') (BOM @ csv)]))"

text \<open>
  The reader used to state the round trip: it splits the text into records at line
  feeds and each record into fields at commas, except inside quotes; a field that
  begins with a quote runs to its closing quote, a doubled quote inside it standing for
  one quote. The state carries the field and the record read so far, both reversed.
\<close>

datatype pstate = Plain | Quoted | QuoteSeen

fun parse_csv_aux ::
  "pstate \<Rightarrow> string \<Rightarrow> string list \<Rightarrow> string list list \<Rightarrow> string \<Rightarrow> string list list" where
  "parse_csv_aux st f r rs [] = rev (rev (rev f # r) # rs)"
| "parse_csv_aux Plain f r rs (c # cs) =
     (if c = CHR 0x22 \<and> f = [] then parse_csv_aux Quoted [] r rs cs
      else if c = CHR '','' then parse_csv_aux Plain [] (rev f # r) rs cs
      else if c = CHR 0x0A then parse_csv_aux Plain [] [] (rev (rev f # r) # rs) cs
      else parse_csv_aux Plain (c # f) r rs cs)"
| "parse_csv_aux Quoted f r rs (c # cs) =
     (if c = CHR 0x22 then parse_csv_aux QuoteSeen f r rs cs
      else parse_csv_aux Quoted (c # f) r rs cs)"
| "parse_csv_aux QuoteSeen f r rs (c # cs) =
     (if c = CHR 0x22 then parse_csv_aux Quoted (c # f) r rs cs
      else if c = CHR '','' then parse_csv_aux Plain [] (rev f # r) rs cs
      else if c = CHR 0x0A then parse_csv_aux Plain [] [] (rev (rev f # r) # rs) cs
      else parse_csv_aux Plain (c # f) r rs cs)"

definition parse_csv :: "string \<Rightarrow> string list list" where
  "parse_csv text = parse_csv_aux Plain [] [] [] text"

text \<open>The text a cell stands for, and the table a download stands for: the first
  row's keys, then every row's cell texts at those keys.\<close>

definition cell_text :: "js_conv \<Rightarrow> jsval \<Rightarrow> string" where
  "cell_text cv v = (if v = JNull \<or> v = JUndef then [] else ToString cv v)"

definition csv_table :: "js_conv \<Rightarrow> row list \<Rightarrow> string list list" where
  "csv_table cv rows =
     (case rows of
        [] \<Rightarrow> []
      | first # rest \<Rightarrow>
          map fst first # map (\<lambda>row. map (\<lambda>k. cell_text cv (js_get row k)) (map fst first)) rows)"

text \<open>
  \<open>exportChartPng(container, filename = 'chart', title, subtitle)\<close>, by what decides its
  outcome: whether the container holds an SVG, the SVG's measured width and height, and
  whether the serialised SVG then loads as an image (\<open>img.onload\<close>) or not
  (\<open>img.onerror\<close>). The drawing on the canvas is not modelled; \<open>png\<close> stands for the
  canvas's data URL.
\<close>

datatype image_event = ImageLoaded | ImageError

definition exportChartPng ::
  "bool \<Rightarrow> real \<Rightarrow> real \<Rightarrow> image_event \<Rightarrow> string \<Rightarrow> string option \<Rightarrow> effect list" where
  "exportChartPng has_svg width height ev png fname =
     (if \<not> has_svg then []
      else if width = 0 \<or> height = 0
        then [ConsoleWarn (''PNG export: SVG has zero dimensions '' @ [CHR 0xE2, CHR 0x80, CHR 0x94]
                @ '' chart may not be rendered yet'')]
      else (case ev of
              ImageLoaded \<Rightarrow>
                [DownloadFile ((case fname of None \<Rightarrow> ''chart'' | Some f \<Rightarrow> f) @ ''.png'') png]
            | ImageError \<Rightarrow> [ConsoleWarn ''PNG export: failed to load SVG as image'']))"

section \<open>The chart renderers' guards (BarChart, LineChart, DonutChart, TreemapChart, StackedBarChart)\<close>

text \<open>
  Every renderer draws in an effect that starts with a guard and returns before touching
  the SVG when the guard holds. Past the guard the effect empties the SVG
  (\<open>svg.selectAll('*').remove()\<close>) and appends its elements; \<open>drawn\<close> stands for the
  children the SVG has after that. The SVG element itself lives across renders, so each
  effect maps the SVG's children before it to the children after it.
\<close>

definition BarChart_effect :: "'n list \<Rightarrow> row list \<Rightarrow> nat \<Rightarrow> 'n list \<Rightarrow> 'n list" where
  "BarChart_effect drawn rows width svg = (if length rows = 0 \<or> width = 0 then svg else drawn)"

definition LineChart_effect :: "'n list \<Rightarrow> row list \<Rightarrow> nat \<Rightarrow> 'n list \<Rightarrow> 'n list" where
  "LineChart_effect drawn rows width svg = (if length rows = 0 \<or> width = 0 then svg else drawn)"

definition DonutChart_effect :: "'n list \<Rightarrow> row list \<Rightarrow> nat \<Rightarrow> 'n list \<Rightarrow> 'n list" where
  "DonutChart_effect drawn rows width svg = (if length rows = 0 \<or> width = 0 then svg else drawn)"

definition TreemapChart_effect :: "'n list \<Rightarrow> row list \<Rightarrow> nat \<Rightarrow> 'n list \<Rightarrow> 'n list" where
  "TreemapChart_effect drawn rows width svg = (if length rows = 0 \<or> width = 0 then svg else drawn)"

definition StackedBarChart_effect ::
  "'n list \<Rightarrow> row list \<Rightarrow> nat \<Rightarrow> string list \<Rightarrow> 'n list \<Rightarrow> 'n list" where
  "StackedBarChart_effect drawn rows width stackKeys svg =
     (if length rows = 0 \<or> width = 0 \<or> length stackKeys = 0 then svg else drawn)"

text \<open>A succession of renders of one chart, each with its data, its measured width and
  what its drawing would leave.\<close>

definition render_all ::
  "('n list \<Rightarrow> row list \<Rightarrow> nat \<Rightarrow> 'n list \<Rightarrow> 'n list) \<Rightarrow> ('n list \<times> row list \<times> nat) list
     \<Rightarrow> 'n list \<Rightarrow> 'n list" where
  "render_all effect renders svg = fold (\<lambda>(drawn, rows, width). effect drawn rows width) renders svg"

definition all_guarded :: "('n list \<times> row list \<times> nat) list \<Rightarrow> bool" where
  "all_guarded renders = list_all (\<lambda>(drawn, rows, width). length rows = 0 \<or> width = 0) renders"

text \<open>Auxiliary notions for the round trip: the quoting of a text, what the reader does
  once a field (a line) is complete, and what may follow a field (a line).\<close>

definition enc :: "string \<Rightarrow> string" where
  "enc t = (if list_ex csv_special t then CHR 0x22 # quote_doubled t @ [CHR 0x22] else t)"

definition after_field :: "string \<Rightarrow> string list \<Rightarrow> string list list \<Rightarrow> string \<Rightarrow> string list list" where
  "after_field t r rs rest =
     (case rest of
        [] \<Rightarrow> rev (rev (t # r) # rs)
      | c # m \<Rightarrow> if c = CHR '','' then parse_csv_aux Plain [] (t # r) rs m
                 else parse_csv_aux Plain [] [] (rev (t # r) # rs) m)"

definition sep_started :: "string \<Rightarrow> bool" where
  "sep_started rest \<longleftrightarrow> rest = [] \<or> hd rest = CHR '','' \<or> hd rest = CHR 0x0A"

definition after_line :: "string list \<Rightarrow> string list list \<Rightarrow> string \<Rightarrow> string list list" where
  "after_line ts rs rest =
     (case rest of
        [] \<Rightarrow> rev (ts # rs)
      | c # m \<Rightarrow> parse_csv_aux Plain [] [] (ts # rs) m)"

definition line_end :: "string \<Rightarrow> bool" where
  "line_end rest \<longleftrightarrow> rest = [] \<or> hd rest = CHR 0x0A"

text \<open>A column name is plain when it needs no quoting.\<close>

definition plain_keys :: "row \<Rightarrow> bool" where
  "plain_keys first \<longleftrightarrow> list_all (\<lambda>k. \<not> list_ex csv_special k) (map fst first)"

section \<open>Auxiliary facts\<close>

lemma maxZoom_gt_1_iff: "maxZoom rows xk > 1 \<longleftrightarrow> 4 \<le> uniqueX rows xk"
proof (cases "uniqueX rows xk > 3")
  case True
  then have "real (uniqueX rows xk) / 3 > 1" by simp
  then have "\<lceil>real (uniqueX rows xk) / 3\<rceil> > 1" by linarith
  with True show ?thesis by (simp add: maxZoom_def)
next
  case False
  then show ?thesis by (simp add: maxZoom_def)
qed


subsection \<open>Rounding to doubles\<close>

lemma rne_of_int: "rne (of_int n) = n"
  by (simp add: rne_def)

lemma rne_ge_floor: "\<lfloor>y\<rfloor> \<le> rne y"
  by (simp add: rne_def Let_def)

lemma rne_le_floor: "rne y \<le> \<lfloor>y\<rfloor> + 1"
  by (simp add: rne_def Let_def)

lemma rne_near:
  assumes "of_int k - 1 / 2 < y" and "y < of_int k + 1 / 2"
  shows "rne y = k"
proof (cases "of_int k \<le> y")
  case True
  with assms have "\<lfloor>y\<rfloor> = k" by linarith
  with assms show ?thesis by (simp add: rne_def Let_def)
next
  case False
  with assms have f: "\<lfloor>y\<rfloor> = k - 1" by linarith
  have "1 / 2 < y - of_int (k - 1)" using assms by simp
  then show ?thesis by (simp add: rne_def Let_def f)
qed

lemma rne_tie:
  assumes "y = of_int k + 1 / 2 \<or> y = of_int k - 1 / 2" and "even k"
  shows "rne y = k"
proof -
  from assms(1) show ?thesis
  proof
    assume y: "y = of_int k + 1 / 2"
    then have "\<lfloor>y\<rfloor> = k" by linarith
    with y assms(2) show ?thesis by (simp add: rne_def Let_def)
  next
    assume y: "y = of_int k - 1 / 2"
    then have f: "\<lfloor>y\<rfloor> = k - 1" by linarith
    have "y - of_int (k - 1) = 1 / 2" using y by simp
    with assms(2) show ?thesis by (simp add: rne_def Let_def f)
  qed
qed

lemma binade_eqI:
  assumes "2 powi e \<le> \<bar>x\<bar>" and "\<bar>x\<bar> < 2 powi (e + 1)"
  shows "binade x = e"
proof -
  have "(0::real) < 2 powi e" by (rule zero_less_power_int) simp
  with assms(1) have pos: "0 < \<bar>x\<bar>" by linarith
  have p1: "(2::real) powr (of_int e) = 2 powi e"
    by (simp add: powr_real_of_int')
  have p2: "(2::real) powr (of_int e + 1) = 2 powi (e + 1)"
    using powr_real_of_int' [of 2 "e + 1"] by simp
  have a: "(2::real) powr (of_int e) \<le> \<bar>x\<bar>"
    unfolding p1 by (rule assms(1))
  have b: "\<bar>x\<bar> < (2::real) powr (of_int e + 1)"
    unfolding p2 by (rule assms(2))
  have "\<lfloor>log 2 \<bar>x\<bar>\<rfloor> = e"
    using floor_log_eq_powr_iff [of "\<bar>x\<bar>" 2 e] pos a b by simp
  then show ?thesis by (simp add: binade_def)
qed

lemma binade_bounds:
  assumes "x \<noteq> 0"
  shows "2 powi (binade x) \<le> \<bar>x\<bar>" and "\<bar>x\<bar> < 2 powi (binade x + 1)"
proof -
  have pos: "0 < \<bar>x\<bar>" using assms by simp
  have "(2::real) powr (of_int (binade x)) \<le> \<bar>x\<bar> \<and> \<bar>x\<bar> < 2 powr (of_int (binade x) + 1)"
    using floor_log_eq_powr_iff [of "\<bar>x\<bar>" 2 "binade x"] pos by (simp add: binade_def)
  moreover have "(2::real) powr (of_int (binade x)) = 2 powi (binade x)"
    by (simp add: powr_real_of_int')
  moreover have "(2::real) powr (of_int (binade x) + 1) = 2 powi (binade x + 1)"
    using powr_real_of_int' [of 2 "binade x + 1"] by simp
  ultimately show "2 powi (binade x) \<le> \<bar>x\<bar>" and "\<bar>x\<bar> < 2 powi (binade x + 1)"
    by metis+
qed

lemma fl_binade:
  assumes "2 powi e \<le> \<bar>x\<bar>" and "\<bar>x\<bar> < 2 powi (e + 1)"
  shows "fl x = 2 powi (e - 52) * of_int (rne (x / 2 powi (e - 52)))"
proof -
  have "(0::real) < 2 powi e" by (rule zero_less_power_int) simp
  with assms(1) have "0 < \<bar>x\<bar>" by linarith
  then have "x \<noteq> 0" by simp
  then show ?thesis
    by (simp add: fl_def Let_def binade_eqI [OF assms])
qed

text \<open>Two rules that evaluate \<open>fl\<close> at a given number, from its binade and the
  integer that the scaled number rounds to.\<close>

lemma fl_eqI:
  assumes "2 powi e \<le> \<bar>x\<bar>" and "\<bar>x\<bar> < 2 powi (e + 1)"
    and "of_int k - 1 / 2 < x / 2 powi (e - 52)" and "x / 2 powi (e - 52) < of_int k + 1 / 2"
  shows "fl x = 2 powi (e - 52) * of_int k"
  using fl_binade [OF assms(1,2)] rne_near [OF assms(3,4)] by simp

lemma fl_tieI:
  assumes "2 powi e \<le> \<bar>x\<bar>" and "\<bar>x\<bar> < 2 powi (e + 1)"
    and "x / 2 powi (e - 52) = of_int k + 1 / 2 \<or> x / 2 powi (e - 52) = of_int k - 1 / 2"
    and "even k"
  shows "fl x = 2 powi (e - 52) * of_int k"
  using fl_binade [OF assms(1,2)] rne_tie [OF assms(3,4)] by simp

text \<open>An integer of magnitude at most \<open>2^53\<close> is a double.\<close>

lemma fl_of_int:
  assumes "\<bar>n\<bar> \<le> 2 ^ 53"
  shows "fl (of_int n) = of_int n"
proof (cases "n = 0")
  case True
  then show ?thesis by (simp add: fl_def)
next
  case False
  let ?x = "of_int n :: real"
  let ?e = "binade ?x"
  have x0: "?x \<noteq> 0" using False by simp
  note b = binade_bounds [OF x0]
  have x1: "1 \<le> \<bar>?x\<bar>" using False by (simp flip: of_int_abs)
  have xm: "\<bar>?x\<bar> \<le> 2 ^ 53"
    using assms by (metis of_int_abs of_int_le_iff of_int_numeral of_int_power)
  have e0: "0 \<le> ?e"
  proof (rule ccontr)
    assume "\<not> 0 \<le> ?e"
    then have "?e + 1 \<le> 0" by simp
    then have "(2::real) powi (?e + 1) \<le> 2 powi 0"
      by (intro power_int_increasing) simp_all
    with b(2) x1 show False by simp
  qed
  have e53: "?e \<le> 53"
  proof (rule ccontr)
    assume "\<not> ?e \<le> 53"
    then have "54 \<le> ?e" by simp
    then have "(2::real) powi 54 \<le> 2 powi ?e"
      by (intro power_int_increasing) simp_all
    with b(1) xm show False by simp
  qed
  obtain m where m: "?e = int m" using e0 by (metis nonneg_int_cases)
  with e53 have m53: "m \<le> 53" by simp
  show ?thesis
  proof (cases "m \<le> 52")
    case True
    have q: "(2::real) powi (?e - 52) = 1 / 2 ^ (52 - m)"
    proof -
      have "?e - 52 = - int (52 - m)" using m True by simp
      then show ?thesis by (simp add: power_int_minus_divide)
    qed
    have "?x / (2 powi (?e - 52)) = of_int (n * 2 ^ (52 - m))"
      unfolding q by simp
    then have r: "rne (?x / (2 powi (?e - 52))) = n * 2 ^ (52 - m)"
      by (simp only: rne_of_int)
    have "fl ?x = 2 powi (?e - 52) * of_int (rne (?x / 2 powi (?e - 52)))"
      using x0 by (simp add: fl_def Let_def)
    also have "\<dots> = 2 powi (?e - 52) * of_int (n * 2 ^ (52 - m))"
      unfolding r ..
    also have "\<dots> = ?x"
      unfolding q by simp
    finally show ?thesis .
  next
    case False
    with m53 have m': "m = 53" by simp
    with b(1) m have "2 ^ 53 \<le> \<bar>?x\<bar>" by simp
    with xm have ax: "\<bar>?x\<bar> = 2 ^ 53" by simp
    then have an: "\<bar>n\<bar> = 2 ^ 53"
      by (metis of_int_abs of_int_eq_iff of_int_numeral of_int_power)
    have q: "(2::real) powi (?e - 52) = 2" using m m' by simp
    have "even \<bar>n\<bar>" unfolding an by simp
    then have ev: "even n" by (simp only: dvd_abs_iff)
    then obtain h where h: "n = 2 * h" by (auto elim: evenE)
    have "?x / 2 = of_int h" using h by simp
    then have r: "rne (?x / 2) = h" by (simp only: rne_of_int)
    have "fl ?x = 2 powi (?e - 52) * of_int (rne (?x / 2 powi (?e - 52)))"
      using x0 by (simp add: fl_def Let_def)
    also have "\<dots> = 2 * of_int (rne (?x / 2))"
      unfolding q ..
    also have "\<dots> = 2 * of_int h"
      unfolding r ..
    also have "\<dots> = ?x" using h by simp
    finally show ?thesis .
  qed
qed

lemma fl_0: "fl 0 = 0"
  by (simp add: fl_def)

lemma fl_numeral: "numeral w \<le> (2::int) ^ 53 \<Longrightarrow> fl (numeral w) = numeral w"
  using fl_of_int [of "numeral w"] by simp

lemma fl_1: "fl 1 = 1"
  using fl_of_int [of 1] by simp

lemma fl_neg_numeral: "numeral w \<le> (2::int) ^ 53 \<Longrightarrow> fl (- numeral w) = - numeral w"
  using fl_of_int [of "- numeral w"] by simp

text \<open>Rounding keeps the sign, so a comparator's result has the sign of the exact
  difference.\<close>

lemma scaled_ge:
  assumes "x \<noteq> 0"
  shows "2 ^ 52 \<le> \<bar>x\<bar> / 2 powi (binade x - 52)"
proof -
  have q: "(0::real) < 2 powi (binade x - 52)" by (rule zero_less_power_int) simp
  have "(2::real) powi (binade x - 52 + 52) = 2 powi (binade x - 52) * 2 powi 52"
    by (rule power_int_add) simp
  then have "(2::real) powi (binade x) = 2 powi (binade x - 52) * 2 ^ 52"
    by simp
  then have "(2::real) powi (binade x) / 2 powi (binade x - 52) = 2 ^ 52"
    using q by simp
  moreover have "(2::real) powi (binade x) / 2 powi (binade x - 52) \<le> \<bar>x\<bar> / 2 powi (binade x - 52)"
    using binade_bounds(1) [OF assms] q by (simp add: divide_right_mono)
  ultimately show ?thesis by simp
qed

lemma fl_pos:
  assumes "0 < x"
  shows "0 < fl x"
proof -
  let ?q = "(2::real) powi (binade x - 52)"
  define y where "y = x / ?q"
  have x0: "x \<noteq> 0" using assms by simp
  have q: "0 < ?q" by (rule zero_less_power_int) simp
  have "2 ^ 52 \<le> y" using scaled_ge [OF x0] assms by (simp add: y_def)
  moreover have "(1::real) \<le> 2 ^ 52" by simp
  ultimately have "1 \<le> y" by linarith
  then have "1 \<le> \<lfloor>y\<rfloor>" by linarith
  with rne_ge_floor [of y] have "0 < rne y" by linarith
  then have "0 < ?q * of_int (rne y)" using q by simp
  then show ?thesis using x0 by (simp add: fl_def Let_def y_def)
qed

lemma fl_neg:
  assumes "x < 0"
  shows "fl x < 0"
proof -
  let ?q = "(2::real) powi (binade x - 52)"
  define y where "y = x / ?q"
  have x0: "x \<noteq> 0" using assms by simp
  have q: "0 < ?q" by (rule zero_less_power_int) simp
  have "2 ^ 52 \<le> - y" using scaled_ge [OF x0] assms by (simp add: y_def)
  moreover have "(1::real) < 2 ^ 52" by simp
  ultimately have "y < - 1" by linarith
  then have "\<lfloor>y\<rfloor> < - 1" by linarith
  with rne_le_floor [of y] have "rne y < 0" by linarith
  then have "?q * of_int (rne y) < 0" using q by (simp add: mult_pos_neg)
  then show ?thesis using x0 by (simp add: fl_def Let_def y_def)
qed

lemma fl_le_0_iff: "fl x \<le> 0 \<longleftrightarrow> x \<le> 0"
proof (cases "x = 0")
  case True
  then show ?thesis by (simp add: fl_0)
next
  case False
  then consider "0 < x" | "x < 0" by linarith
  then show ?thesis
  proof cases
    case 1
    with fl_pos [OF 1] show ?thesis by simp
  next
    case 2
    with fl_neg [OF 2] show ?thesis by simp
  qed
qed


subsection \<open>Evaluating d3's scale and transform methods\<close>

lemma invertX_eval:
  assumes "fl (p - x) = n" and "fl (n / k) = v"
  shows "invertX \<lparr>tk = k, tx = x, ty = y\<rparr> p = v"
  using assms by (simp add: invertX_def)

lemma scale_invert_eval:
  assumes "fl (r1 - r0) = b" and "b \<noteq> 0" and "fl (p - r0) = n" and "fl (n / b) = t"
    and "fl (1 - t) = c" and "fl (d0 * c) = l" and "fl (d1 * t) = r" and "fl (l + r) = v"
  shows "scale_invert \<lparr>dom0 = d0, dom1 = d1, rng0 = r0, rng1 = r1\<rparr> p = v"
  using assms by (simp add: scale_invert_def Let_def)

lemma rescaleX_eval:
  assumes "invertX t r0 = a"
    and "scale_invert \<lparr>dom0 = d0, dom1 = d1, rng0 = r0, rng1 = r1\<rparr> a = v0"
    and "invertX t r1 = b"
    and "scale_invert \<lparr>dom0 = d0, dom1 = d1, rng0 = r0, rng1 = r1\<rparr> b = v1"
  shows "rescaleX t \<lparr>dom0 = d0, dom1 = d1, rng0 = r0, rng1 = r1\<rparr>
           = \<lparr>dom0 = v0, dom1 = v1, rng0 = r0, rng1 = r1\<rparr>"
  using assms by (simp add: rescaleX_def)
section \<open>Range-scoped download data\<close>

lemma axis_in_range_js:
  "(js_ge cv (js_get d k) (zmin z) \<and> js_le cv (js_get d k) (zmax z)) = axis_in_range cv z k d"
  by (simp add: js_ge_def js_le_def axis_in_range_def split: option.splits)

lemma filterArr_Some:
  assumes "arr \<noteq> []"
  shows "filterArr cv z (Some arr) =
     Some (if js_get (hd arr) (xKey z) \<noteq> JUndef
             then (if xKey z = [] then arr else filter (axis_in_range cv z (xKey z)) arr)
           else if js_get (hd arr) (capKey cv (xKey z)) \<noteq> JUndef
             then (if capKey cv (xKey z) = [] then arr
                   else filter (axis_in_range cv z (capKey cv (xKey z))) arr)
           else arr)"
proof (cases arr)
  case Nil
  with assms show ?thesis by simp
next
  case (Cons first rest)
  then show ?thesis
    by (simp add: filterArr_def Let_def axis_in_range_js)
qed

text \<open>
  C1 (as amended). For every download payload and every visible range
  \<open>{xKey, min, max}\<close>, the effective download data holds, in each non-empty payload
  array (\<open>summary\<close> or \<open>detail\<close>), exactly the rows whose axis field, read as a
  number the way the comparison operators do, lies within \<open>[min, max]\<close> inclusive.
  The axis field is \<open>xKey\<close> if reading it from the first row gives anything but
  \<open>undefined\<close> (an own property or a member inherited from \<open>Object.prototype\<close>),
  else the capitalised variant of \<open>xKey\<close> on the same test. If the first row has
  neither, or if the field so chosen is named by the empty string, the array is left
  unfiltered. The file name is kept, the filtered array is never longer than the
  original, and when the array is filtered every kept row's axis value, read as a
  number, lies within \<open>[min, max]\<close>.
\<close>

theorem effectiveDownloadData_range:
  assumes sel: "sel = summary \<or> sel = detail"
    and e: "sel p = Some e" "data e = Some arr" "arr \<noteq> []"
  shows "\<exists>p' e' out.
           effectiveDownloadData cv (Some p) (Some z) = Some p' \<and>
           sel p' = Some e' \<and> filename e' = filename e \<and> data e' = Some out \<and>
           out = (if js_get (hd arr) (xKey z) \<noteq> JUndef
                    then (if xKey z = [] then arr else filter (axis_in_range cv z (xKey z)) arr)
                  else if js_get (hd arr) (capKey cv (xKey z)) \<noteq> JUndef
                    then (if capKey cv (xKey z) = [] then arr
                          else filter (axis_in_range cv z (capKey cv (xKey z))) arr)
                  else arr) \<and>
           length out \<le> length arr \<and>
           (js_get (hd arr) (xKey z) \<noteq> JUndef \<and> xKey z \<noteq> [] \<longrightarrow>
              (\<forall>d \<in> set out. \<exists>r. ToNumber cv (js_get d (xKey z)) = Some r \<and>
                                     zmin z \<le> r \<and> r \<le> zmax z)) \<and>
           (js_get (hd arr) (xKey z) = JUndef \<and> js_get (hd arr) (capKey cv (xKey z)) \<noteq> JUndef \<and>
            capKey cv (xKey z) \<noteq> [] \<longrightarrow>
              (\<forall>d \<in> set out. \<exists>r. ToNumber cv (js_get d (capKey cv (xKey z))) = Some r \<and>
                                     zmin z \<le> r \<and> r \<le> zmax z))"
proof -
  let ?out = "if js_get (hd arr) (xKey z) \<noteq> JUndef
                    then (if xKey z = [] then arr else filter (axis_in_range cv z (xKey z)) arr)
                  else if js_get (hd arr) (capKey cv (xKey z)) \<noteq> JUndef
                    then (if capKey cv (xKey z) = [] then arr
                          else filter (axis_in_range cv z (capKey cv (xKey z))) arr)
                  else arr"
  let ?p' = "p\<lparr>summary := (case summary p of
                             Some e \<Rightarrow> Some (e\<lparr>data := filterArr cv z (data e)\<rparr>) | None \<Rightarrow> None),
               detail := (case detail p of
                            Some e \<Rightarrow> Some (e\<lparr>data := filterArr cv z (data e)\<rparr>) | None \<Rightarrow> None)\<rparr>"
  have eff: "effectiveDownloadData cv (Some p) (Some z) = Some ?p'"
    by (simp add: effectiveDownloadData_def)
  have f: "filterArr cv z (data e) = Some ?out"
    using filterArr_Some [OF e(3)] e(2) by simp
  from sel e(1) have selp: "sel ?p' = Some (e\<lparr>data := Some ?out\<rparr>)"
    by (auto simp: f)
  have len: "length ?out \<le> length arr"
    by simp
  have in1: "\<forall>d \<in> set ?out. \<exists>r. ToNumber cv (js_get d (xKey z)) = Some r \<and>
                                    zmin z \<le> r \<and> r \<le> zmax z"
    if "js_get (hd arr) (xKey z) \<noteq> JUndef \<and> xKey z \<noteq> []"
    using that by (auto simp: axis_in_range_def split: option.splits)
  have in2: "\<forall>d \<in> set ?out. \<exists>r. ToNumber cv (js_get d (capKey cv (xKey z))) = Some r \<and>
                                    zmin z \<le> r \<and> r \<le> zmax z"
    if "js_get (hd arr) (xKey z) = JUndef \<and> js_get (hd arr) (capKey cv (xKey z)) \<noteq> JUndef \<and>
        capKey cv (xKey z) \<noteq> []"
    using that by (auto simp: axis_in_range_def split: option.splits)
  show ?thesis
    using eff selp len in1 in2
    by (intro exI [of _ ?p'] exI [of _ "e\<lparr>data := Some ?out\<rparr>"] exI [of _ ?out]) simp
qed

text \<open>The theorem at a zoom on \<open>year\<close> over detail rows keyed \<open>Year\<close>: the
  capitalised variant is used and one row remains.\<close>

theorem effectiveDownloadData_range_witness:
  "((detail :: downloadData \<Rightarrow> _) = summary \<or> (detail :: downloadData \<Rightarrow> _) = detail) \<and>
   (\<exists>p' e'. effectiveDownloadData example_conv
        (Some \<lparr>summary = None,
               detail = Some \<lparr>data = Some [ [(''Year'', JNum 2020)], [(''Year'', JNum 2021)],
                                            [(''Year'', JNull)], [(''Year'', JNum 2023)] ],
                              filename = ''trade-trends-detail''\<rparr>\<rparr>)
        (Some \<lparr>xKey = ''year'', zmin = 2021, zmax = 2022\<rparr>) = Some p' \<and>
      detail p' = Some e' \<and> data e' = Some [ [(''Year'', JNum 2021)] ])"
proof -
  let ?z = "\<lparr>xKey = ''year'', zmin = 2021, zmax = 2022\<rparr>"
  let ?arr = "[ [(''Year'', JNum 2020)], [(''Year'', JNum 2021)],
               [(''Year'', JNull)], [(''Year'', JNum 2023)] ] :: row list"
  let ?e = "\<lparr>data = Some ?arr, filename = ''trade-trends-detail''\<rparr>"
  let ?p = "\<lparr>summary = None, detail = Some ?e\<rparr>"
  have s: "(detail :: downloadData \<Rightarrow> _) = summary \<or> (detail :: downloadData \<Rightarrow> _) = detail" by simp
  have e: "detail ?p = Some ?e" "data ?e = Some ?arr" "?arr \<noteq> []" by simp_all
  have c: "capKey example_conv ''year'' = ''Year''"
    by (simp add: capKey_def utf8_length_def toUpperCase_def)
  from effectiveDownloadData_range [OF s e, of example_conv ?z]
  obtain p' e' out where r: "effectiveDownloadData example_conv (Some ?p) (Some ?z) = Some p'"
      "detail p' = Some e'" "data e' = Some out"
      "out = (if js_get (hd ?arr) (xKey ?z) \<noteq> JUndef
                then (if xKey ?z = [] then ?arr else filter (axis_in_range example_conv ?z (xKey ?z)) ?arr)
              else if js_get (hd ?arr) (capKey example_conv (xKey ?z)) \<noteq> JUndef
                then (if capKey example_conv (xKey ?z) = [] then ?arr
                      else filter (axis_in_range example_conv ?z (capKey example_conv (xKey ?z))) ?arr)
              else ?arr)"
    by blast
  have "out = [ [(''Year'', JNum 2021)] ]"
    unfolding r(4) by (simp add: js_get_def Object_prototype_keys_def c axis_in_range_def)
  with r(1-3) s show ?thesis by blast
qed

text \<open>
  Capitalisation is Unicode's: with \<open>toUpperCase\<close> taking the two bytes of a small n
  with tilde to those of the capital one, a zoom on that letter followed by \<open>ame\<close>
  filters rows that are keyed by the capitalised name.
\<close>

lemma filterArr_capitalises_beyond_ascii:
  "filterArr (example_conv\<lparr>UpperCase := (\<lambda>u. if u = [CHR 0xC3, CHR 0xB1] then [CHR 0xC3, CHR 0x91] else u)\<rparr>)
     \<lparr>xKey = [CHR 0xC3, CHR 0xB1] @ ''ame'', zmin = 1, zmax = 2\<rparr>
     (Some [ [([CHR 0xC3, CHR 0x91] @ ''ame'', JNum 1)], [([CHR 0xC3, CHR 0x91] @ ''ame'', JNum 3)] ])
   = Some [ [([CHR 0xC3, CHR 0x91] @ ''ame'', JNum 1)] ]"
  by (simp add: filterArr_def Let_def js_get_def Object_prototype_keys_def capKey_def
      utf8_length_def toUpperCase_def js_ge_def js_le_def example_conv_def)

text \<open>
  The claim as first stated fails in three ways. At the empty axis key, a first row
  that has a property named by the empty string makes \<open>key\<close> the empty string,
  \<open>!key\<close> holds, and the array comes back unfiltered with a row whose axis value 5
  is outside \<open>[0, 1]\<close>. A row whose axis field is \<open>null\<close> is kept when 0 is in the
  range, since \<open>null >= 0 && null <= 1\<close> holds, although \<open>null\<close> is no value within
  \<open>[0, 1]\<close>. And at the axis key \<open>constructor\<close> the rows, which have neither that
  field nor its capitalised variant as a column, are not left unfiltered: the first
  row inherits a member of that name, which is not \<open>undefined\<close>, and as it compares
  false with every number the array comes back empty.
\<close>

theorem effectiveDownloadData_counterexample:
  "effectiveDownloadData example_conv
     (Some \<lparr>summary = Some \<lparr>data = Some [ [('''', JNum 5)] ], filename = ''s''\<rparr>, detail = None\<rparr>)
     (Some \<lparr>xKey = '''', zmin = 0, zmax = 1\<rparr>)
   = Some \<lparr>summary = Some \<lparr>data = Some [ [('''', JNum 5)] ], filename = ''s''\<rparr>, detail = None\<rparr> \<and>
   js_get [('''', JNum 5)] '''' = JNum 5 \<and>
   \<not> axis_in_range example_conv \<lparr>xKey = '''', zmin = 0, zmax = 1\<rparr> '''' [('''', JNum 5)] \<and>
   effectiveDownloadData example_conv
     (Some \<lparr>summary = Some \<lparr>data = Some [ [(''x'', JNull)], [(''x'', JNum 5)] ], filename = ''s''\<rparr>,
            detail = None\<rparr>)
     (Some \<lparr>xKey = ''x'', zmin = 0, zmax = 1\<rparr>)
   = Some \<lparr>summary = Some \<lparr>data = Some [ [(''x'', JNull)] ], filename = ''s''\<rparr>, detail = None\<rparr> \<and>
   js_get [(''x'', JNull)] ''x'' = JNull \<and>
   map_of [(''Year'', JNum 2021)] ''constructor'' = None \<and>
   map_of [(''Year'', JNum 2021)] (capKey example_conv ''constructor'') = None \<and>
   effectiveDownloadData example_conv
     (Some \<lparr>summary = Some \<lparr>data = Some [ [(''Year'', JNum 2021)], [(''Year'', JNum 2022)] ],
                             filename = ''s''\<rparr>, detail = None\<rparr>)
     (Some \<lparr>xKey = ''constructor'', zmin = 2021, zmax = 2022\<rparr>)
   = Some \<lparr>summary = Some \<lparr>data = Some [], filename = ''s''\<rparr>, detail = None\<rparr>"
  by (simp add: effectiveDownloadData_def filterArr_def js_get_def Object_prototype_keys_def
      capKey_def utf8_length_def toUpperCase_def axis_in_range_def js_ge_def js_le_def)
section \<open>The zoom handler's range report\<close>

text \<open>
  A wheel zoom to \<open>k = 4\<close> about the pixel 80 of a plot 600 wide, over the years 2014
  to 2024: the rescaled domain as d3 computes it in doubles starts a little above
  2015, at \<open>2015.0000000000002\<close>, and ends at \<open>2017.5\<close>.
\<close>

lemma rescaleX_wheel_example:
  "rescaleX \<lparr>tk = 4, tx = - 240, ty = 0\<rparr> \<lparr>dom0 = 2014, dom1 = 2024, rng0 = 0, rng1 = 600\<rparr>
     = \<lparr>dom0 = 8862063719874561 / 2 ^ 42, dom1 = 4035 / 2 ^ 1, rng0 = 0, rng1 = 600\<rparr>"
proof -
  have la: "fl (0 - (- 240)) = 240"
      by (rule fl_eqI [where e = "7" and k = "8444249301319680", THEN trans]) (simp_all add: power_int_minus_divide)
  have lb: "fl (240 / 4) = 60"
      by (rule fl_eqI [where e = "5" and k = "8444249301319680", THEN trans]) (simp_all add: power_int_minus_divide)
  have lx: "invertX \<lparr>tk = 4, tx = - 240, ty = 0\<rparr> 0 = 60"
      by (rule invertX_eval [OF la lb])
  have lc: "fl (600 - 0) = 600"
      by (rule fl_eqI [where e = "9" and k = "5277655813324800", THEN trans]) (simp_all add: power_int_minus_divide)
  have ld: "fl (60 - 0) = 60"
      by (rule fl_eqI [where e = "5" and k = "8444249301319680", THEN trans]) (simp_all add: power_int_minus_divide)
  have le: "fl (60 / 600) = 3602879701896397 / 2 ^ 55"
      by (rule fl_eqI [where e = "-4" and k = "7205759403792794", THEN trans]) (simp_all add: power_int_minus_divide)
  have lf: "fl (1 - (3602879701896397 / 2 ^ 55)) = 8106479329266893 / 2 ^ 53"
      by (rule fl_eqI [where e = "-1" and k = "8106479329266893", THEN trans]) (simp_all add: power_int_minus_divide)
  have lg: "fl (2014 * (8106479329266893 / 2 ^ 53)) = 7971899106027111 / 2 ^ 42"
      by (rule fl_eqI [where e = "10" and k = "7971899106027111", THEN trans]) (simp_all add: power_int_minus_divide)
  have lh: "fl (2024 * (3602879701896397 / 2 ^ 55)) = 7121316910779597 / 2 ^ 45"
      by (rule fl_eqI [where e = "7" and k = "7121316910779597", THEN trans]) (simp_all add: power_int_minus_divide)
  have li: "fl ((7971899106027111 / 2 ^ 42) + (7121316910779597 / 2 ^ 45)) = 8862063719874561 / 2 ^ 42"
      by (rule fl_eqI [where e = "10" and k = "8862063719874561", THEN trans]) (simp_all add: power_int_minus_divide)
  have ls: "scale_invert \<lparr>dom0 = 2014, dom1 = 2024, rng0 = 0, rng1 = 600\<rparr> 60 = 8862063719874561 / 2 ^ 42"
      by (rule scale_invert_eval [OF lc _ ld le lf lg lh li]) simp
  have ra: "fl (600 - (- 240)) = 840"
      by (rule fl_eqI [where e = "9" and k = "7388718138654720", THEN trans]) (simp_all add: power_int_minus_divide)
  have rb: "fl (840 / 4) = 210"
      by (rule fl_eqI [where e = "7" and k = "7388718138654720", THEN trans]) (simp_all add: power_int_minus_divide)
  have rx: "invertX \<lparr>tk = 4, tx = - 240, ty = 0\<rparr> 600 = 210"
      by (rule invertX_eval [OF ra rb])
  have rc: "fl (600 - 0) = 600"
      by (rule fl_eqI [where e = "9" and k = "5277655813324800", THEN trans]) (simp_all add: power_int_minus_divide)
  have rd: "fl (210 - 0) = 210"
      by (rule fl_eqI [where e = "7" and k = "7388718138654720", THEN trans]) (simp_all add: power_int_minus_divide)
  have re: "fl (210 / 600) = 3152519739159347 / 2 ^ 53"
      by (rule fl_eqI [where e = "-2" and k = "6305039478318694", THEN trans]) (simp_all add: power_int_minus_divide)
  have rf: "fl (1 - (3152519739159347 / 2 ^ 53)) = 5854679515581645 / 2 ^ 53"
      by (rule fl_eqI [where e = "-1" and k = "5854679515581645", THEN trans]) (simp_all add: power_int_minus_divide)
  have rg: "fl (2014 * (5854679515581645 / 2 ^ 53)) = 5757482687686247 / 2 ^ 42"
      by (rule fl_eqI [where e = "10" and k = "5757482687686247", THEN trans]) (simp_all add: power_int_minus_divide)
  have rh: "fl (2024 * (3152519739159347 / 2 ^ 53)) = 6231152296932147 / 2 ^ 43"
      by (rule fl_eqI [where e = "9" and k = "6231152296932147", THEN trans]) (simp_all add: power_int_minus_divide)
  have ri: "fl ((5757482687686247 / 2 ^ 42) + (6231152296932147 / 2 ^ 43)) = 4035 / 2 ^ 1"
      by (rule fl_tieI [where e = "10" and k = "8873058836152320", THEN trans]) (simp_all add: power_int_minus_divide)
  have rs: "scale_invert \<lparr>dom0 = 2014, dom1 = 2024, rng0 = 0, rng1 = 600\<rparr> 210 = 4035 / 2 ^ 1"
      by (rule scale_invert_eval [OF rc _ rd re rf rg rh ri]) simp
  show ?thesis
    by (rule rescaleX_eval [OF lx ls rx rs])
qed

text \<open>
  C2. On every zoom or pan update, when the transform scale \<open>k\<close> is above 1 and a
  range listener is registered, the chart emits \<open>{xKey, min, max}\<close> with \<open>min\<close> the
  ceiling of the visible domain's start and \<open>max\<close> the floor of its end, both read from
  the rescaled x scale (the original scale's range pulled back through the transform
  and the scale, in double arithmetic), so that the integers from \<open>min\<close> to \<open>max\<close>
  are the integers of the visible domain; when \<open>k\<close> is back at 1 it emits \<open>null\<close>.
  The emission returns nothing and has no failing branch, and without a listener
  nothing is sent while the handler updates the chart exactly as it does with one.
\<close>

theorem on_zoom_report:
  "(has_listener \<and> 1 < tk t \<longrightarrow>
      snd (on_zoom has_listener xk x0 t ui) =
        SetZoomRange (Some \<lparr>xKey = xk,
          zmin = of_int \<lceil>dom0 (rescaleX t x0)\<rceil>,
          zmax = of_int \<lfloor>dom1 (rescaleX t x0)\<rfloor>\<rparr>)) \<and>
   (\<forall>n :: int. real_of_int \<lceil>dom0 (rescaleX t x0)\<rceil> \<le> of_int n \<and>
                of_int n \<le> real_of_int \<lfloor>dom1 (rescaleX t x0)\<rfloor> \<longleftrightarrow>
                dom0 (rescaleX t x0) \<le> of_int n \<and> of_int n \<le> dom1 (rescaleX t x0)) \<and>
   (has_listener \<and> tk t \<le> 1 \<longrightarrow> snd (on_zoom has_listener xk x0 t ui) = SetZoomRange None) \<and>
   (\<not> has_listener \<longrightarrow> snd (on_zoom has_listener xk x0 t ui) = NotReported \<and>
        zoomRange_after (snd (on_zoom has_listener xk x0 t ui)) old = old) \<and>
   fst (on_zoom has_listener xk x0 t ui) = fst (on_zoom True xk x0 t ui) \<and>
   currentX (fst (on_zoom has_listener xk x0 t ui)) = rescaleX t x0 \<and>
   dom0 (rescaleX t x0) = scale_invert x0 (invertX t (rng0 x0)) \<and>
   dom1 (rescaleX t x0) = scale_invert x0 (invertX t (rng1 x0))"
proof -
  have i: "real_of_int \<lceil>dom0 (rescaleX t x0)\<rceil> \<le> of_int n \<and>
           of_int n \<le> real_of_int \<lfloor>dom1 (rescaleX t x0)\<rfloor> \<longleftrightarrow>
           dom0 (rescaleX t x0) \<le> of_int n \<and> of_int n \<le> dom1 (rescaleX t x0)" for n :: int
    by (simp add: ceiling_le_iff le_floor_iff)
  have r: "dom0 (rescaleX t x0) = scale_invert x0 (invertX t (rng0 x0)) \<and>
           dom1 (rescaleX t x0) = scale_invert x0 (invertX t (rng1 x0))"
    by (simp add: rescaleX_def)
  have h: "(has_listener \<and> 1 < tk t \<longrightarrow>
      snd (on_zoom has_listener xk x0 t ui) =
        SetZoomRange (Some \<lparr>xKey = xk,
          zmin = of_int \<lceil>dom0 (rescaleX t x0)\<rceil>,
          zmax = of_int \<lfloor>dom1 (rescaleX t x0)\<rfloor>\<rparr>)) \<and>
   (has_listener \<and> tk t \<le> 1 \<longrightarrow> snd (on_zoom has_listener xk x0 t ui) = SetZoomRange None) \<and>
   (\<not> has_listener \<longrightarrow> snd (on_zoom has_listener xk x0 t ui) = NotReported \<and>
        zoomRange_after (snd (on_zoom has_listener xk x0 t ui)) old = old) \<and>
   fst (on_zoom has_listener xk x0 t ui) = fst (on_zoom True xk x0 t ui) \<and>
   currentX (fst (on_zoom has_listener xk x0 t ui)) = rescaleX t x0"
    by (simp add: on_zoom_def zoom_report_def Let_def zoomRange_after_def)
  from h i r show ?thesis by blast
qed

text \<open>The theorem at that wheel zoom: the range sent is 2016 to 2017, the year 2015
  being just outside the visible domain as the doubles have it.\<close>

theorem on_zoom_report_witness:
  "1 < tk \<lparr>tk = 4, tx = - 240, ty = 0\<rparr> \<and>
   snd (on_zoom True ''year'' \<lparr>dom0 = 2014, dom1 = 2024, rng0 = 0, rng1 = 600\<rparr>
          \<lparr>tk = 4, tx = - 240, ty = 0\<rparr>
          \<lparr>currentX = \<lparr>dom0 = 2014, dom1 = 2024, rng0 = 0, rng1 = 600\<rparr>, tooltip = None,
            guideLine_shown = False, resetBtn_shown = False\<rparr>)
     = SetZoomRange (Some \<lparr>xKey = ''year'', zmin = 2016, zmax = 2017\<rparr>) \<and>
   tk \<lparr>tk = 1, tx = 0, ty = 0\<rparr> \<le> 1 \<and>
   snd (on_zoom True ''year'' \<lparr>dom0 = 2014, dom1 = 2024, rng0 = 0, rng1 = 600\<rparr>
          \<lparr>tk = 1, tx = 0, ty = 0\<rparr>
          \<lparr>currentX = \<lparr>dom0 = 2014, dom1 = 2024, rng0 = 0, rng1 = 600\<rparr>, tooltip = None,
            guideLine_shown = False, resetBtn_shown = True\<rparr>)
     = SetZoomRange None \<and>
   snd (on_zoom False ''year'' \<lparr>dom0 = 2014, dom1 = 2024, rng0 = 0, rng1 = 600\<rparr>
          \<lparr>tk = 4, tx = - 240, ty = 0\<rparr>
          \<lparr>currentX = \<lparr>dom0 = 2014, dom1 = 2024, rng0 = 0, rng1 = 600\<rparr>, tooltip = None,
            guideLine_shown = False, resetBtn_shown = False\<rparr>)
     = NotReported"
proof -
  let ?x = "\<lparr>dom0 = 2014, dom1 = 2024, rng0 = 0, rng1 = 600\<rparr>"
  let ?t = "\<lparr>tk = 4, tx = - 240, ty = 0\<rparr>"
  let ?i = "\<lparr>tk = 1, tx = 0, ty = 0\<rparr>"
  let ?ui = "\<lparr>currentX = ?x, tooltip = None, guideLine_shown = False, resetBtn_shown = False\<rparr>"
  let ?uj = "\<lparr>currentX = ?x, tooltip = None, guideLine_shown = False, resetBtn_shown = True\<rparr>"
  have k: "True \<and> 1 < tk ?t" by simp
  have j: "True \<and> tk ?i \<le> 1" by simp
  have n: "\<not> False" by simp
  have d0: "\<lceil>(8862063719874561::real) / 2 ^ 42\<rceil> = 2016"
    by (rule ceiling_unique) simp_all
  have d1: "\<lfloor>(4035::real) / 2 ^ 1\<rfloor> = 2017"
    by (rule floor_unique) simp_all
  have s0: "dom0 (rescaleX ?t ?x) = 8862063719874561 / 2 ^ 42"
    unfolding rescaleX_wheel_example by simp
  have s1: "dom1 (rescaleX ?t ?x) = 4035 / 2 ^ 1"
    unfolding rescaleX_wheel_example by simp
  note a = on_zoom_report [of True ?t "''year''" ?x ?ui None, THEN conjunct1, THEN mp, OF k]
  note b = on_zoom_report [of True ?i "''year''" ?x ?uj None,
      THEN conjunct2, THEN conjunct2, THEN conjunct1, THEN mp, OF j]
  note c = on_zoom_report [of False ?t "''year''" ?x ?ui None,
      THEN conjunct2, THEN conjunct2, THEN conjunct2, THEN conjunct1, THEN mp, OF n, THEN conjunct1]
  from a have a': "snd (on_zoom True ''year'' ?x ?t ?ui)
      = SetZoomRange (Some \<lparr>xKey = ''year'', zmin = 2016, zmax = 2017\<rparr>)"
    unfolding s0 s1 d0 d1 by simp
  show ?thesis
    using a' b c by simp
qed
section \<open>The range reported during the reset transition\<close>

text \<open>
  The reset button runs \<open>overlay.transition().duration(300).call(zoom.transform,
  d3.zoomIdentity)\<close>. d3-zoom interpolates from the current transform to the identity
  with \<open>d3.interpolateZoom\<close>, which first zooms out about the centre of the plot, and
  passes every interpolated transform to the \<open>zoom\<close> handler as it is, without the
  constraint of \<open>translateExtent\<close> that the transforms of wheel and drag gestures go
  through. For a plot 600 by 224 that is zoomed to \<open>k = 4\<close> at its left edge (the
  transform \<open>{k: 4, x: 0, y: 0}\<close>), the transform halfway through the transition has
  \<open>k = 1.6841987323005885\<close> and \<open>x = 97.89615212392937\<close>: the plot's left edge is
  then the image of a point left of the unzoomed plot, and the rescaled domain over the
  years 2013 to 2024 starts at \<open>2011.9343521316591\<close>.
\<close>

lemma rescaleX_reset_example:
  "rescaleX \<lparr>tk = 948119597900849 / 2 ^ 49, tx = 215275915149577 / 2 ^ 41, ty = 1285914799826807 / 2 ^ 45\<rparr> \<lparr>dom0 = 2013, dom1 = 2024, rng0 = 0, rng1 = 600\<rparr>
     = \<lparr>dom0 = 4424290428981465 / 2 ^ 41, dom1 = 1109663225048829 / 2 ^ 39, rng0 = 0, rng1 = 600\<rparr>"
proof -
  have la: "fl (0 - (215275915149577 / 2 ^ 41)) = - (215275915149577 / 2 ^ 41)"
      by (rule fl_eqI [where e = "6" and k = "-6888829284786464", THEN trans]) (simp_all add: power_int_minus_divide)
  have lb: "fl ((- (215275915149577 / 2 ^ 41)) / (948119597900849 / 2 ^ 49)) = - (4090271030768699 / 2 ^ 46)"
      by (rule fl_eqI [where e = "5" and k = "-8180542061537398", THEN trans]) (simp_all add: power_int_minus_divide)
  have lx: "invertX \<lparr>tk = 948119597900849 / 2 ^ 49, tx = 215275915149577 / 2 ^ 41, ty = 1285914799826807 / 2 ^ 45\<rparr> 0 = - (4090271030768699 / 2 ^ 46)"
      by (rule invertX_eval [OF la lb])
  have lc: "fl (600 - 0) = 600"
      by (rule fl_eqI [where e = "9" and k = "5277655813324800", THEN trans]) (simp_all add: power_int_minus_divide)
  have ld: "fl ((- (4090271030768699 / 2 ^ 46)) - 0) = - (4090271030768699 / 2 ^ 46)"
      by (rule fl_eqI [where e = "5" and k = "-8180542061537398", THEN trans]) (simp_all add: power_int_minus_divide)
  have le: "fl ((- (4090271030768699 / 2 ^ 46)) / 600) = - (3490364612922623 / 2 ^ 55)"
      by (rule fl_eqI [where e = "-4" and k = "-6980729225845246", THEN trans]) (simp_all add: power_int_minus_divide)
  have lf: "fl (1 - (- (3490364612922623 / 2 ^ 55))) = 154371725124557 / 2 ^ 47"
      by (rule fl_eqI [where e = "0" and k = "4939895203985824", THEN trans]) (simp_all add: power_int_minus_divide)
  have lg: "fl (2013 * (154371725124557 / 2 ^ 47)) = 1213868291702083 / 2 ^ 39"
      by (rule fl_eqI [where e = "11" and k = "4855473166808332", THEN trans]) (simp_all add: power_int_minus_divide)
  have lh: "fl (2024 * (- (3490364612922623 / 2 ^ 55))) = - (431182737826867 / 2 ^ 41)"
      by (rule fl_eqI [where e = "7" and k = "-6898923805229872", THEN trans]) (simp_all add: power_int_minus_divide)
  have li: "fl ((1213868291702083 / 2 ^ 39) + (- (431182737826867 / 2 ^ 41))) = 4424290428981465 / 2 ^ 41"
      by (rule fl_eqI [where e = "10" and k = "8848580857962930", THEN trans]) (simp_all add: power_int_minus_divide)
  have ls: "scale_invert \<lparr>dom0 = 2013, dom1 = 2024, rng0 = 0, rng1 = 600\<rparr> (- (4090271030768699 / 2 ^ 46)) = 4424290428981465 / 2 ^ 41"
      by (rule scale_invert_eval [OF lc _ ld le lf lg lh li]) simp
  have ra: "fl (600 - (215275915149577 / 2 ^ 41)) = 1104138038181623 / 2 ^ 41"
      by (rule fl_eqI [where e = "8" and k = "8833104305452984", THEN trans]) (simp_all add: power_int_minus_divide)
  have rb: "fl ((1104138038181623 / 2 ^ 41) / (948119597900849 / 2 ^ 49)) = 5244692408352015 / 2 ^ 44"
      by (rule fl_eqI [where e = "8" and k = "5244692408352015", THEN trans]) (simp_all add: power_int_minus_divide)
  have rx: "invertX \<lparr>tk = 948119597900849 / 2 ^ 49, tx = 215275915149577 / 2 ^ 41, ty = 1285914799826807 / 2 ^ 45\<rparr> 600 = 5244692408352015 / 2 ^ 44"
      by (rule invertX_eval [OF ra rb])
  have rc: "fl (600 - 0) = 600"
      by (rule fl_eqI [where e = "9" and k = "5277655813324800", THEN trans]) (simp_all add: power_int_minus_divide)
  have rd: "fl ((5244692408352015 / 2 ^ 44) - 0) = 5244692408352015 / 2 ^ 44"
      by (rule fl_eqI [where e = "8" and k = "5244692408352015", THEN trans]) (simp_all add: power_int_minus_divide)
  have re: "fl ((5244692408352015 / 2 ^ 44) / 600) = 4475470855127053 / 2 ^ 53"
      by (rule fl_eqI [where e = "-2" and k = "8950941710254106", THEN trans]) (simp_all add: power_int_minus_divide)
  have rf: "fl (1 - (4475470855127053 / 2 ^ 53)) = 4531728399613939 / 2 ^ 53"
      by (rule fl_eqI [where e = "-1" and k = "4531728399613939", THEN trans]) (simp_all add: power_int_minus_divide)
  have rg: "fl (2013 * (4531728399613939 / 2 ^ 53)) = 4454281869347099 / 2 ^ 42"
      by (rule fl_eqI [where e = "9" and k = "8908563738694198", THEN trans]) (simp_all add: power_int_minus_divide)
  have rh: "fl (2024 * (4475470855127053 / 2 ^ 53)) = 4423023931043533 / 2 ^ 42"
      by (rule fl_eqI [where e = "9" and k = "8846047862087066", THEN trans]) (simp_all add: power_int_minus_divide)
  have ri: "fl ((4454281869347099 / 2 ^ 42) + (4423023931043533 / 2 ^ 42)) = 1109663225048829 / 2 ^ 39"
      by (rule fl_eqI [where e = "10" and k = "8877305800390632", THEN trans]) (simp_all add: power_int_minus_divide)
  have rs: "scale_invert \<lparr>dom0 = 2013, dom1 = 2024, rng0 = 0, rng1 = 600\<rparr> (5244692408352015 / 2 ^ 44) = 1109663225048829 / 2 ^ 39"
      by (rule scale_invert_eval [OF rc _ rd re rf rg rh ri]) simp
  show ?thesis
    by (rule rescaleX_eval [OF lx ls rx rs])
qed

lemma effectiveDownloadData_no_range: "effectiveDownloadData cv dl None = dl"
  by (simp add: effectiveDownloadData_def split: option.splits)

text \<open>
  C3, at that transform. Every visible range that the zoom handler emits should have
  \<open>min \<le> max\<close> with both inside the x-axis domain that the data spans. For twelve
  rows with the years 2013 to 2024 in a chart 708 wide, the data spans 2013 to 2024,
  zoom is enabled up to \<open>k = 4\<close>, and the handler, called with the transform of the
  reset transition above, emits the range 2012 to 2018, whose \<open>min\<close> is below the
  first year of the data.
\<close>

theorem zoom_report_reset_transition:
  "d3_extent (xValues
     [ [(''year'', JNum 2013), (''value'', JNum 130)],
      [(''year'', JNum 2014), (''value'', JNum 140)],
      [(''year'', JNum 2015), (''value'', JNum 150)],
      [(''year'', JNum 2016), (''value'', JNum 160)],
      [(''year'', JNum 2017), (''value'', JNum 170)],
      [(''year'', JNum 2018), (''value'', JNum 180)],
      [(''year'', JNum 2019), (''value'', JNum 190)],
      [(''year'', JNum 2020), (''value'', JNum 200)],
      [(''year'', JNum 2021), (''value'', JNum 210)],
      [(''year'', JNum 2022), (''value'', JNum 220)],
      [(''year'', JNum 2023), (''value'', JNum 230)],
      [(''year'', JNum 2024), (''value'', JNum 240)] ] ''year'') = Some (2013, 2024) \<and>
   x_scale
     [ [(''year'', JNum 2013), (''value'', JNum 130)],
      [(''year'', JNum 2014), (''value'', JNum 140)],
      [(''year'', JNum 2015), (''value'', JNum 150)],
      [(''year'', JNum 2016), (''value'', JNum 160)],
      [(''year'', JNum 2017), (''value'', JNum 170)],
      [(''year'', JNum 2018), (''value'', JNum 180)],
      [(''year'', JNum 2019), (''value'', JNum 190)],
      [(''year'', JNum 2020), (''value'', JNum 200)],
      [(''year'', JNum 2021), (''value'', JNum 210)],
      [(''year'', JNum 2022), (''value'', JNum 220)],
      [(''year'', JNum 2023), (''value'', JNum 230)],
      [(''year'', JNum 2024), (''value'', JNum 240)] ] ''year'' (innerW 708 False) = Some \<lparr>dom0 = 2013, dom1 = 2024, rng0 = 0, rng1 = 600\<rparr> \<and>
   LineChart_zoom
     [ [(''year'', JNum 2013), (''value'', JNum 130)],
      [(''year'', JNum 2014), (''value'', JNum 140)],
      [(''year'', JNum 2015), (''value'', JNum 150)],
      [(''year'', JNum 2016), (''value'', JNum 160)],
      [(''year'', JNum 2017), (''value'', JNum 170)],
      [(''year'', JNum 2018), (''value'', JNum 180)],
      [(''year'', JNum 2019), (''value'', JNum 190)],
      [(''year'', JNum 2020), (''value'', JNum 200)],
      [(''year'', JNum 2021), (''value'', JNum 210)],
      [(''year'', JNum 2022), (''value'', JNum 220)],
      [(''year'', JNum 2023), (''value'', JNum 230)],
      [(''year'', JNum 2024), (''value'', JNum 240)] ] 708 ''year'' None = Some 4 \<and>
   1 < tk \<lparr>tk = 948119597900849 / 2 ^ 49, tx = 215275915149577 / 2 ^ 41, ty = 1285914799826807 / 2 ^ 45\<rparr> \<and>
   snd (on_zoom True ''year'' \<lparr>dom0 = 2013, dom1 = 2024, rng0 = 0, rng1 = 600\<rparr>
          \<lparr>tk = 948119597900849 / 2 ^ 49, tx = 215275915149577 / 2 ^ 41, ty = 1285914799826807 / 2 ^ 45\<rparr>
          \<lparr>currentX = \<lparr>dom0 = 2013, dom1 = 8063 / 4, rng0 = 0, rng1 = 600\<rparr>, tooltip = None,
            guideLine_shown = False, resetBtn_shown = True\<rparr>)
     = SetZoomRange (Some \<lparr>xKey = ''year'', zmin = 2012, zmax = 2018\<rparr>) \<and>
   (2012 :: real) < 2013"
proof -
  let ?rows = "[ [(''year'', JNum 2013), (''value'', JNum 130)],
      [(''year'', JNum 2014), (''value'', JNum 140)],
      [(''year'', JNum 2015), (''value'', JNum 150)],
      [(''year'', JNum 2016), (''value'', JNum 160)],
      [(''year'', JNum 2017), (''value'', JNum 170)],
      [(''year'', JNum 2018), (''value'', JNum 180)],
      [(''year'', JNum 2019), (''value'', JNum 190)],
      [(''year'', JNum 2020), (''value'', JNum 200)],
      [(''year'', JNum 2021), (''value'', JNum 210)],
      [(''year'', JNum 2022), (''value'', JNum 220)],
      [(''year'', JNum 2023), (''value'', JNum 230)],
      [(''year'', JNum 2024), (''value'', JNum 240)] ] :: row list"
  have xv: "xValues ?rows ''year'' = map (\<lambda>n. JNum (of_int n)) [2013 .. 2024]"
    by (simp add: xValues_def js_get_def upto.simps)
  have nm: "numbers (xValues ?rows ''year'') = map of_int [2013 .. 2024]"
    unfolding xv by (simp add: numbers_def upto.simps)
  have ext: "d3_extent (xValues ?rows ''year'') = Some (2013, 2024)"
    unfolding d3_extent_def nm by (simp add: upto.simps)
  have w: "innerW 708 False = 600"
    by (simp add: innerW_def)
  have sc: "x_scale ?rows ''year'' (innerW 708 False) = Some \<lparr>dom0 = 2013, dom1 = 2024, rng0 = 0, rng1 = 600\<rparr>"
    unfolding x_scale_def ext w by simp
  have u: "uniqueX ?rows ''year'' = 12"
    unfolding uniqueX_def xv by (simp add: upto.simps)
  have c: "\<lceil>(12::real) / 3\<rceil> = 4" by simp
  have mz: "maxZoom ?rows ''year'' = 4"
    unfolding maxZoom_def u using c by simp
  have lz: "LineChart_zoom ?rows 708 ''year'' None = Some 4"
    unfolding LineChart_zoom_def mz by simp
  have k: "1 < tk \<lparr>tk = 948119597900849 / 2 ^ 49, tx = 215275915149577 / 2 ^ 41, ty = 1285914799826807 / 2 ^ 45\<rparr>"
    by simp
  have d0: "\<lceil>(4424290428981465::real) / 2 ^ 41\<rceil> = 2012"
    by (rule ceiling_unique) simp_all
  have d1: "\<lfloor>(1109663225048829::real) / 2 ^ 39\<rfloor> = 2018"
    by (rule floor_unique) simp_all
  have s0: "dom0 (rescaleX \<lparr>tk = 948119597900849 / 2 ^ 49, tx = 215275915149577 / 2 ^ 41, ty = 1285914799826807 / 2 ^ 45\<rparr> \<lparr>dom0 = 2013, dom1 = 2024, rng0 = 0, rng1 = 600\<rparr>) = 4424290428981465 / 2 ^ 41"
    unfolding rescaleX_reset_example by simp
  have s1: "dom1 (rescaleX \<lparr>tk = 948119597900849 / 2 ^ 49, tx = 215275915149577 / 2 ^ 41, ty = 1285914799826807 / 2 ^ 45\<rparr> \<lparr>dom0 = 2013, dom1 = 2024, rng0 = 0, rng1 = 600\<rparr>) = 1109663225048829 / 2 ^ 39"
    unfolding rescaleX_reset_example by simp
  have "zoom_report True ''year'' \<lparr>dom0 = 2013, dom1 = 2024, rng0 = 0, rng1 = 600\<rparr> \<lparr>tk = 948119597900849 / 2 ^ 49, tx = 215275915149577 / 2 ^ 41, ty = 1285914799826807 / 2 ^ 45\<rparr>
      = SetZoomRange (Some \<lparr>xKey = ''year'', zmin = of_int \<lceil>dom0 (rescaleX \<lparr>tk = 948119597900849 / 2 ^ 49, tx = 215275915149577 / 2 ^ 41, ty = 1285914799826807 / 2 ^ 45\<rparr> \<lparr>dom0 = 2013, dom1 = 2024, rng0 = 0, rng1 = 600\<rparr>)\<rceil>,
                            zmax = of_int \<lfloor>dom1 (rescaleX \<lparr>tk = 948119597900849 / 2 ^ 49, tx = 215275915149577 / 2 ^ 41, ty = 1285914799826807 / 2 ^ 45\<rparr> \<lparr>dom0 = 2013, dom1 = 2024, rng0 = 0, rng1 = 600\<rparr>)\<rfloor>\<rparr>)"
    using k by (simp only: zoom_report_def Let_def if_True)
  then have zr: "zoom_report True ''year'' \<lparr>dom0 = 2013, dom1 = 2024, rng0 = 0, rng1 = 600\<rparr> \<lparr>tk = 948119597900849 / 2 ^ 49, tx = 215275915149577 / 2 ^ 41, ty = 1285914799826807 / 2 ^ 45\<rparr>
      = SetZoomRange (Some \<lparr>xKey = ''year'', zmin = 2012, zmax = 2018\<rparr>)"
    unfolding s0 s1 d0 d1 by simp
  have r: "snd (on_zoom True ''year'' \<lparr>dom0 = 2013, dom1 = 2024, rng0 = 0, rng1 = 600\<rparr> \<lparr>tk = 948119597900849 / 2 ^ 49, tx = 215275915149577 / 2 ^ 41, ty = 1285914799826807 / 2 ^ 45\<rparr>
          \<lparr>currentX = \<lparr>dom0 = 2013, dom1 = 8063 / 4, rng0 = 0, rng1 = 600\<rparr>, tooltip = None,
            guideLine_shown = False, resetBtn_shown = True\<rparr>)
     = SetZoomRange (Some \<lparr>xKey = ''year'', zmin = 2012, zmax = 2018\<rparr>)"
    unfolding on_zoom_def snd_conv by (rule zr)
  from ext sc lz k r show ?thesis by (intro conjI) simp_all
qed
section \<open>Zoom enablement of the line chart\<close>

text \<open>
  C4 (as amended). A run of the line chart's effect that draws (the data is not empty
  and the measured width is not zero) leaves interactive zoom enabled exactly when the
  data contains at least 4 distinct x values, and disabled otherwise; when enabled, the
  maximum zoom factor is derived from the number of distinct x values: it is that
  number divided by 3, rounded up. A run with empty data or zero width returns before
  it touches the SVG, so zoom stays enabled or disabled as the run before left it.
\<close>

theorem LineChart_zoom_enabled_iff:
  "(rows \<noteq> [] \<and> width \<noteq> 0 \<longrightarrow>
      (LineChart_zoom rows width xk before \<noteq> None \<longleftrightarrow> 4 \<le> uniqueX rows xk) \<and>
      (4 \<le> uniqueX rows xk \<longrightarrow>
         LineChart_zoom rows width xk before = Some \<lceil>real (uniqueX rows xk) / 3\<rceil>)) \<and>
   (rows = [] \<or> width = 0 \<longrightarrow> LineChart_zoom rows width xk before = before)"
proof -
  have m: "4 \<le> uniqueX rows xk \<Longrightarrow> maxZoom rows xk = \<lceil>real (uniqueX rows xk) / 3\<rceil>"
    by (simp add: maxZoom_def)
  show ?thesis
    using maxZoom_gt_1_iff [of rows xk] m by (simp add: LineChart_zoom_def)
qed

theorem LineChart_zoom_enabled_iff_witness:
  "[ [(''year'', JNum 2021)], [(''year'', JNum 2022)], [(''year'', JNum 2023)],
     [(''year'', JNum 2024)], [(''year'', JNum 2024)] ] \<noteq> ([] :: row list) \<and> (600::nat) \<noteq> 0 \<and>
   LineChart_zoom [ [(''year'', JNum 2021)], [(''year'', JNum 2022)], [(''year'', JNum 2023)],
                   [(''year'', JNum 2024)], [(''year'', JNum 2024)] ] 600 ''year'' None = Some 2 \<and>
   LineChart_zoom [] 600 ''year'' None = None"
proof -
  let ?rows = "[ [(''year'', JNum 2021)], [(''year'', JNum 2022)], [(''year'', JNum 2023)],
                 [(''year'', JNum 2024)], [(''year'', JNum 2024)] ] :: row list"
  have u: "4 \<le> uniqueX ?rows ''year''" "uniqueX ?rows ''year'' = 4"
    by (simp_all add: uniqueX_def xValues_def js_get_def)
  have c: "\<lceil>(4::real) / 3\<rceil> = 2" by linarith
  have n: "?rows \<noteq> [] \<and> (600::nat) \<noteq> 0" by simp
  have g: "([] :: row list) = [] \<or> (600::nat) = 0" by simp
  note z = LineChart_zoom_enabled_iff [of ?rows 600 "''year''" None]
  note y = LineChart_zoom_enabled_iff [of "[]" 600 "''year''" None]
  from z [THEN conjunct1, THEN mp, OF n, THEN conjunct2, THEN mp, OF u(1)] u(2) c
  have a: "LineChart_zoom ?rows 600 ''year'' None = Some 2" by simp
  from y [THEN conjunct2, THEN mp, OF g]
  have b: "LineChart_zoom [] 600 ''year'' None = None" .
  from n a b show ?thesis by (intro conjI) simp_all
qed

text \<open>
  The claim as first stated fails in three ways. With exactly 3 distinct x values (the
  years 2022 to 2024) \<open>uniqueX > 3\<close> fails, \<open>maxZoom\<close> is 1 and a drawing run
  attaches no zoom behaviour, so "at least 3" is not enough. A run with zero width,
  which is the first run of every chart (the measured width starts at 0), attaches
  nothing although the data has 4 distinct x values. And after a drawing run on those
  4 values, a run with empty data leaves the overlay and its zoom listeners in place:
  zoom is still enabled although the data contains no x value at all.
\<close>

theorem LineChart_zoom_counterexample:
  "uniqueX [ [(''year'', JNum 2022), (''value'', JNum 10)],
            [(''year'', JNum 2023), (''value'', JNum 20)],
            [(''year'', JNum 2024), (''value'', JNum 30)] ] ''year'' = 3 \<and>
   LineChart_zoom [ [(''year'', JNum 2022), (''value'', JNum 10)],
                   [(''year'', JNum 2023), (''value'', JNum 20)],
                   [(''year'', JNum 2024), (''value'', JNum 30)] ] 600 ''year'' None = None \<and>
   uniqueX [ [(''year'', JNum 2021)], [(''year'', JNum 2022)], [(''year'', JNum 2023)],
            [(''year'', JNum 2024)] ] ''year'' = 4 \<and>
   LineChart_zoom [ [(''year'', JNum 2021)], [(''year'', JNum 2022)], [(''year'', JNum 2023)],
                   [(''year'', JNum 2024)] ] 0 ''year'' None = None \<and>
   uniqueX [] ''year'' = 0 \<and>
   LineChart_zoom [] 600 ''year''
     (LineChart_zoom [ [(''year'', JNum 2021)], [(''year'', JNum 2022)], [(''year'', JNum 2023)],
                      [(''year'', JNum 2024)] ] 600 ''year'' None) = Some 2"
proof -
  have c: "\<lceil>(4::real) / 3\<rceil> = 2" by linarith
  show ?thesis
    by (simp add: LineChart_zoom_def maxZoom_def uniqueX_def xValues_def js_get_def c)
qed
section \<open>Aggregation totals\<close>

lemma num_value_JNum: "num_value (JNum r) = r"
  by (simp add: num_value_def)

lemma num_value_JUndef: "num_value JUndef = 0"
  by (simp add: num_value_def)

lemma is_integer_JNum: "is_integer (JNum r) \<longleftrightarrow> r = of_int \<lfloor>r\<rfloor>"
  by (simp add: is_integer_def)

lemma is_integer_0: "is_integer (JNum 0)"
  by (simp add: is_integer_def)

lemma is_integerE:
  assumes "is_integer v"
  obtains n where "v = JNum (of_int n)"
  using assms by (cases v) (auto simp: is_integer_def)

lemma js_add_exact:
  assumes "is_integer (JNum a)" and "is_integer (JNum b)" and "\<bar>a\<bar> + \<bar>b\<bar> \<le> 2 ^ 53"
  shows "js_add cv (JNum a) (JNum b) = JNum (a + b)" and "is_integer (JNum (a + b))"
proof -
  from assms(1) obtain i where i: "a = of_int i" by (auto simp: is_integer_JNum)
  from assms(2) obtain j where j: "b = of_int j" by (auto simp: is_integer_JNum)
  have s: "a + b = of_int (i + j)" by (simp add: i j)
  have "\<bar>a + b\<bar> \<le> 2 ^ 53" using assms(3) by linarith
  then have "\<bar>real_of_int (i + j)\<bar> \<le> 2 ^ 53" by (simp only: s)
  then have "real_of_int \<bar>i + j\<bar> \<le> real_of_int (2 ^ 53)" by simp
  then have "\<bar>i + j\<bar> \<le> 2 ^ 53" by (simp only: of_int_le_iff)
  then have "fl (of_int (i + j)) = of_int (i + j)" by (rule fl_of_int)
  then have "fl (a + b) = a + b" by (simp only: s)
  then show "js_add cv (JNum a) (JNum b) = JNum (a + b)"
    by (simp add: js_add_def)
  show "is_integer (JNum (a + b))"
    unfolding s by (simp add: is_integer_JNum)
qed

lemma insort_cmp_total:
  "sum_list (map f (insort_cmp cmp a xs)) = (f a :: real) + sum_list (map f xs)"
  by (induction xs) (simp_all add: algebra_simps)

lemma js_sort_total: "sum_list (map f (js_sort cmp xs)) = sum_list (map (f :: 'a \<Rightarrow> real) xs)"
  by (induction xs) (simp_all add: js_sort_def insort_cmp_total)

lemma set_insort_cmp: "set (insort_cmp cmp a xs) = insert a (set xs)"
  by (induction xs) auto

lemma set_js_sort: "set (js_sort cmp xs) = set xs"
  by (induction xs) (simp_all add: js_sort_def set_insort_cmp)

lemma series_values_sort:
  "sum_list (series_values (js_sort cmp m)) = sum_list (series_values m)"
  "sum_list (map abs (series_values (js_sort cmp m))) = sum_list (map abs (series_values m))"
  "integer_series (js_sort cmp m) = integer_series m"
proof -
  show "sum_list (series_values (js_sort cmp m)) = sum_list (series_values m)"
    by (simp add: series_values_def js_sort_total)
  have "sum_list (map (\<lambda>p. \<bar>num_value (snd p)\<bar>) (js_sort cmp m))
      = sum_list (map (\<lambda>p. \<bar>num_value (snd p)\<bar>) m)"
    by (rule js_sort_total)
  then show "sum_list (map abs (series_values (js_sort cmp m))) = sum_list (map abs (series_values m))"
    by (simp add: series_values_def comp_def)
  show "integer_series (js_sort cmp m) = integer_series m"
    by (simp add: integer_series_def list_all_iff set_js_sort)
qed

lemma map_set_values:
  "sum_list (series_values (map_set m k v))
     = sum_list (series_values m) - num_value (map_get m k) + num_value v"
  "sum_list (map abs (series_values (map_set m k v)))
     = sum_list (map abs (series_values m)) - \<bar>num_value (map_get m k)\<bar> + \<bar>num_value v\<bar>"
  by (induction m) (auto simp: series_values_def map_get_def num_value_def)

lemma map_set_integer:
  "integer_series m \<Longrightarrow> is_integer v \<Longrightarrow> integer_series (map_set m k v)"
  by (induction m) (auto simp: integer_series_def)

lemma map_get_integer:
  "integer_series m \<Longrightarrow> map_get m k = JUndef \<or> is_integer (map_get m k)"
  by (induction m) (auto simp: map_get_def integer_series_def)

lemma map_get_abs_le:
  "\<bar>num_value (map_get m k)\<bar> \<le> sum_list (map abs (series_values m))"
proof (induction m)
  case Nil
  show ?case by (simp add: map_get_def num_value_def series_values_def)
next
  case (Cons p m)
  have nn: "0 \<le> sum_list (map abs (series_values m))"
    by (rule sum_list_nonneg) auto
  show ?case
  proof (cases "fst p = k")
    case True
    then have "map_get (p # m) k = snd p" by (cases p) (simp add: map_get_def)
    with nn show ?thesis by (simp add: series_values_def)
  next
    case False
    then have "map_get (p # m) k = map_get m k" by (cases p) (simp add: map_get_def)
    with Cons.IH show ?thesis by (simp add: series_values_def)
  qed
qed

lemma or_zero_integer:
  assumes "v = JUndef \<or> is_integer v"
  shows "\<exists>r. js_or v (JNum 0) = JNum r \<and> r = num_value v \<and> is_integer (JNum r)"
  using assms by (cases v) (auto simp: js_or_def is_integer_def num_value_def)

lemma map_has_get: "\<not> map_has m k \<Longrightarrow> map_get m k = JUndef"
  by (simp add: map_has_def map_get_def)

lemma map_get_set_same: "map_get (map_set m k v) k = v"
  by (induction m) (auto simp: map_get_def)

lemma abs_values_nonneg: "0 \<le> sum_list (map abs (series_values m))"
  by (rule sum_list_nonneg) auto

lemma add_to_entry:
  assumes m: "integer_series m" and b: "is_integer (JNum b)"
    and a: "old = JNum a" "is_integer (JNum a)" "a = num_value (map_get m k)"
    and bnd: "sum_list (map abs (series_values m)) + \<bar>b\<bar> \<le> 2 ^ 53"
  shows "integer_series (map_set m k (js_add cv old (JNum b))) \<and>
         sum_list (series_values (map_set m k (js_add cv old (JNum b))))
           = sum_list (series_values m) + b \<and>
         sum_list (map abs (series_values (map_set m k (js_add cv old (JNum b)))))
           \<le> sum_list (map abs (series_values m)) + \<bar>b\<bar>"
proof -
  have le: "\<bar>a\<bar> \<le> sum_list (map abs (series_values m))"
    unfolding a(3) by (rule map_get_abs_le)
  with bnd have ab: "\<bar>a\<bar> + \<bar>b\<bar> \<le> 2 ^ 53" by linarith
  note e = js_add_exact(1) [OF a(2) b ab, of cv] js_add_exact(2) [OF a(2) b ab]
  have i: "integer_series (map_set m k (JNum (a + b)))"
    by (rule map_set_integer [OF m e(2)])
  have s: "sum_list (series_values (map_set m k (JNum (a + b)))) = sum_list (series_values m) + b"
    unfolding map_set_values using a(3) by (simp add: num_value_JNum)
  have t: "sum_list (map abs (series_values (map_set m k (JNum (a + b)))))
      = sum_list (map abs (series_values m)) - \<bar>a\<bar> + \<bar>a + b\<bar>"
    unfolding map_set_values using a(3) by (simp add: num_value_JNum)
  have "sum_list (map abs (series_values m)) - \<bar>a\<bar> + \<bar>a + b\<bar>
      \<le> sum_list (map abs (series_values m)) + \<bar>b\<bar>"
    by linarith
  with i s t show ?thesis
    unfolding a(1) e(1) by simp
qed

lemma groupAndSum_step_inv:
  assumes m: "integer_series m" and t: "truthy (js_get d key)"
    and v: "is_integer (row_value d)"
    and bnd: "sum_list (map abs (series_values m)) + \<bar>num_value (row_value d)\<bar> \<le> 2 ^ 53"
  shows "integer_series (groupAndSum_step cv key d m) \<and>
         sum_list (series_values (groupAndSum_step cv key d m))
           = sum_list (series_values m) + num_value (row_value d) \<and>
         sum_list (map abs (series_values (groupAndSum_step cv key d m)))
           \<le> sum_list (map abs (series_values m)) + \<bar>num_value (row_value d)\<bar>"
proof -
  let ?k = "js_get d key"
  from or_zero_integer [OF map_get_integer [OF m, of ?k] ]
  obtain a where a: "js_or (map_get m ?k) (JNum 0) = JNum a"
      "a = num_value (map_get m ?k)" "is_integer (JNum a)" by blast
  from v obtain n where n: "row_value d = JNum (of_int n)" by (rule is_integerE)
  define b :: real where "b = of_int n"
  have rv: "row_value d = JNum b" by (simp add: n b_def)
  have ib: "is_integer (JNum b)" using v by (simp only: rv)
  have bnd': "sum_list (map abs (series_values m)) + \<bar>b\<bar> \<le> 2 ^ 53"
    using bnd by (simp add: rv num_value_JNum)
  have step: "groupAndSum_step cv key d m
      = map_set m ?k (js_add cv (js_or (map_get m ?k) (JNum 0)) (JNum b))"
    using t rv by (simp add: groupAndSum_step_def Let_def row_value_def)
  from add_to_entry [OF m ib a(1) a(3) a(2) bnd', of cv]
  show ?thesis
    unfolding step by (simp add: rv num_value_JNum)
qed

lemma groupAndSum_step_skip:
  "\<not> truthy (js_get d key) \<Longrightarrow> groupAndSum_step cv key d m = m"
  by (simp add: groupAndSum_step_def)

lemma fold_groupAndSum_inv:
  assumes "integer_series m"
    and "list_all (\<lambda>d. is_integer (row_value d)) (labelled key rows)"
    and "sum_list (map abs (series_values m))
           + sum_list (map (\<lambda>d. \<bar>num_value (row_value d)\<bar>) (labelled key rows)) \<le> 2 ^ 53"
  shows "integer_series (fold (groupAndSum_step cv key) rows m) \<and>
         sum_list (series_values (fold (groupAndSum_step cv key) rows m))
           = sum_list (series_values m) + rows_total (labelled key rows) \<and>
         sum_list (map abs (series_values (fold (groupAndSum_step cv key) rows m)))
           \<le> sum_list (map abs (series_values m))
               + sum_list (map (\<lambda>d. \<bar>num_value (row_value d)\<bar>) (labelled key rows))"
  using assms
proof (induction rows arbitrary: m)
  case Nil
  then show ?case by (simp add: rows_total_def labelled_def)
next
  case (Cons d rows)
  show ?case
  proof (cases "truthy (js_get d key)")
    case False
    then have l: "labelled key (d # rows) = labelled key rows"
      by (simp add: labelled_def)
    from Cons.IH [OF Cons.prems(1) Cons.prems(2) [unfolded l] Cons.prems(3) [unfolded l] ]
    show ?thesis
      unfolding l by (simp add: groupAndSum_step_skip [OF False])
  next
    case True
    then have l: "labelled key (d # rows) = d # labelled key rows"
      by (simp add: labelled_def)
    let ?A = "sum_list (map (\<lambda>d. \<bar>num_value (row_value d)\<bar>) (labelled key rows))"
    have nn: "0 \<le> ?A" by (rule sum_list_nonneg) auto
    from Cons.prems(2) have v: "is_integer (row_value d)"
      and vs: "list_all (\<lambda>d. is_integer (row_value d)) (labelled key rows)"
      unfolding l by simp_all
    from Cons.prems(3) have b: "sum_list (map abs (series_values m))
        + \<bar>num_value (row_value d)\<bar> + ?A \<le> 2 ^ 53"
      unfolding l by simp
    with nn have b1: "sum_list (map abs (series_values m)) + \<bar>num_value (row_value d)\<bar> \<le> 2 ^ 53"
      by linarith
    note s = groupAndSum_step_inv [OF Cons.prems(1) True v b1, of cv]
    let ?m = "groupAndSum_step cv key d m"
    from s b have b2: "sum_list (map abs (series_values ?m)) + ?A \<le> 2 ^ 53"
      by linarith
    note ih = Cons.IH [OF s [THEN conjunct1] vs b2]
    have f: "fold (groupAndSum_step cv key) (d # rows) m = fold (groupAndSum_step cv key) rows ?m"
      by simp
    from ih s show ?thesis
      unfolding f l by (simp add: rows_total_def)
  qed
qed

lemma modeData_step_inv:
  assumes m: "integer_series m" and t: "truthy (js_get d ''Mode'')"
    and v: "is_integer (row_value d)"
    and bnd: "sum_list (map abs (series_values m)) + \<bar>num_value (row_value d)\<bar> \<le> 2 ^ 53"
  shows "integer_series (modeData_step cv d m) \<and>
         sum_list (series_values (modeData_step cv d m))
           = sum_list (series_values m) + num_value (row_value d) \<and>
         sum_list (map abs (series_values (modeData_step cv d m)))
           \<le> sum_list (map abs (series_values m)) + \<bar>num_value (row_value d)\<bar>"
proof -
  let ?k = "js_get d ''Mode''"
  let ?m1 = "if \<not> map_has m ?k then map_set m ?k (JNum 0) else m"
  have m1: "integer_series ?m1"
    using m by (simp add: map_set_integer is_integer_0)
  have t1: "sum_list (series_values ?m1) = sum_list (series_values m)"
    by (simp add: map_set_values map_has_get num_value_JNum num_value_JUndef)
  have u1: "sum_list (map abs (series_values ?m1)) = sum_list (map abs (series_values m))"
    by (simp add: map_set_values map_has_get num_value_JNum num_value_JUndef)
  have g1: "is_integer (map_get ?m1 ?k)"
  proof (cases "map_has m ?k")
    case False
    then show ?thesis by (simp add: map_get_set_same is_integer_0)
  next
    case True
    then obtain w where w: "map_of m ?k = Some w"
      by (auto simp: map_has_def)
    then have "(?k, w) \<in> set m" by (rule map_of_SomeD)
    with m have "is_integer w" by (auto simp: integer_series_def list_all_iff)
    with w True show ?thesis by (simp add: map_get_def)
  qed
  then obtain i where i: "map_get ?m1 ?k = JNum (of_int i)" by (rule is_integerE)
  define a :: real where "a = of_int i"
  have a: "map_get ?m1 ?k = JNum a" "is_integer (JNum a)" "a = num_value (map_get ?m1 ?k)"
    using g1 by (simp_all add: i a_def num_value_JNum)
  from v obtain n where n: "row_value d = JNum (of_int n)" by (rule is_integerE)
  define b :: real where "b = of_int n"
  have rv: "row_value d = JNum b" by (simp add: n b_def)
  have ib: "is_integer (JNum b)" using v by (simp only: rv)
  have bnd': "sum_list (map abs (series_values ?m1)) + \<bar>b\<bar> \<le> 2 ^ 53"
    using bnd unfolding u1 by (simp add: rv num_value_JNum)
  have step: "modeData_step cv d m = map_set ?m1 ?k (js_add cv (map_get ?m1 ?k) (JNum b))"
    using t rv by (simp add: modeData_step_def Let_def row_value_def)
  from add_to_entry [OF m1 ib a(1) a(2) a(3) bnd', of cv]
  show ?thesis
    unfolding step t1 u1 by (simp add: rv num_value_JNum)
qed

lemma modeData_step_skip:
  "\<not> truthy (js_get d ''Mode'') \<Longrightarrow> modeData_step cv d m = m"
  by (simp add: modeData_step_def)

lemma fold_modeData_inv:
  assumes "integer_series m"
    and "list_all (\<lambda>d. is_integer (row_value d)) (labelled ''Mode'' rows)"
    and "sum_list (map abs (series_values m))
           + sum_list (map (\<lambda>d. \<bar>num_value (row_value d)\<bar>) (labelled ''Mode'' rows)) \<le> 2 ^ 53"
  shows "integer_series (fold (modeData_step cv) rows m) \<and>
         sum_list (series_values (fold (modeData_step cv) rows m))
           = sum_list (series_values m) + rows_total (labelled ''Mode'' rows) \<and>
         sum_list (map abs (series_values (fold (modeData_step cv) rows m)))
           \<le> sum_list (map abs (series_values m))
               + sum_list (map (\<lambda>d. \<bar>num_value (row_value d)\<bar>) (labelled ''Mode'' rows))"
  using assms
proof (induction rows arbitrary: m)
  case Nil
  then show ?case by (simp add: rows_total_def labelled_def)
next
  case (Cons d rows)
  show ?case
  proof (cases "truthy (js_get d ''Mode'')")
    case False
    then have l: "labelled ''Mode'' (d # rows) = labelled ''Mode'' rows"
      by (simp add: labelled_def)
    from Cons.IH [OF Cons.prems(1) Cons.prems(2) [unfolded l] Cons.prems(3) [unfolded l] ]
    show ?thesis
      unfolding l by (simp add: modeData_step_skip [OF False])
  next
    case True
    then have l: "labelled ''Mode'' (d # rows) = d # labelled ''Mode'' rows"
      by (simp add: labelled_def)
    let ?A = "sum_list (map (\<lambda>d. \<bar>num_value (row_value d)\<bar>) (labelled ''Mode'' rows))"
    have nn: "0 \<le> ?A" by (rule sum_list_nonneg) auto
    from Cons.prems(2) have v: "is_integer (row_value d)"
      and vs: "list_all (\<lambda>d. is_integer (row_value d)) (labelled ''Mode'' rows)"
      unfolding l by simp_all
    from Cons.prems(3) have b: "sum_list (map abs (series_values m))
        + \<bar>num_value (row_value d)\<bar> + ?A \<le> 2 ^ 53"
      unfolding l by simp
    with nn have b1: "sum_list (map abs (series_values m)) + \<bar>num_value (row_value d)\<bar> \<le> 2 ^ 53"
      by linarith
    note s = modeData_step_inv [OF Cons.prems(1) True v b1, of cv]
    let ?m = "modeData_step cv d m"
    from s b have b2: "sum_list (map abs (series_values ?m)) + ?A \<le> 2 ^ 53"
      by linarith
    note ih = Cons.IH [OF s [THEN conjunct1] vs b2]
    have f: "fold (modeData_step cv) (d # rows) m = fold (modeData_step cv) rows ?m"
      by simp
    from ih s show ?thesis
      unfolding f l by (simp add: rows_total_def)
  qed
qed

lemma reduce_series_exact:
  assumes "integer_series m" and "is_integer (JNum s)"
    and "\<bar>s\<bar> + sum_list (map abs (series_values m)) \<le> 2 ^ 53"
  shows "fold (\<lambda>m s. js_add cv s (snd m)) m (JNum s) = JNum (s + sum_list (series_values m))"
  using assms
proof (induction m arbitrary: s)
  case Nil
  show ?case by (simp add: series_values_def)
next
  case (Cons p m)
  from Cons.prems(1) have ip: "is_integer (snd p)" and im: "integer_series m"
    by (simp_all add: integer_series_def)
  from ip obtain n where n: "snd p = JNum (of_int n)" by (rule is_integerE)
  define b :: real where "b = of_int n"
  have sp: "snd p = JNum b" by (simp add: n b_def)
  have ib: "is_integer (JNum b)" using ip by (simp only: sp)
  have nn: "0 \<le> sum_list (map abs (series_values m))" by (rule abs_values_nonneg)
  from Cons.prems(3) have bnd: "\<bar>s\<bar> + \<bar>b\<bar> + sum_list (map abs (series_values m)) \<le> 2 ^ 53"
    by (simp add: series_values_def sp num_value_JNum)
  with nn have sb: "\<bar>s\<bar> + \<bar>b\<bar> \<le> 2 ^ 53" by linarith
  note e = js_add_exact(1) [OF Cons.prems(2) ib sb, of cv] js_add_exact(2) [OF Cons.prems(2) ib sb]
  from bnd have b2: "\<bar>s + b\<bar> + sum_list (map abs (series_values m)) \<le> 2 ^ 53"
    by linarith
  have "fold (\<lambda>m s. js_add cv s (snd m)) (p # m) (JNum s)
      = fold (\<lambda>m s. js_add cv s (snd m)) m (JNum (s + b))"
    by (simp add: sp e(1))
  also have "\<dots> = JNum (s + b + sum_list (series_values m))"
    by (rule Cons.IH [OF im e(2) b2])
  also have "\<dots> = JNum (s + sum_list (series_values (p # m)))"
    by (simp add: series_values_def sp num_value_JNum)
  finally show ?case .
qed

lemma reduce_rows_exact:
  assumes "list_all (\<lambda>d. is_integer (row_value d)) rows" and "is_integer (JNum s)"
    and "\<bar>s\<bar> + sum_list (map (\<lambda>d. \<bar>num_value (row_value d)\<bar>) rows) \<le> 2 ^ 53"
  shows "fold (\<lambda>d sum. js_add cv sum (js_or (js_get d ''TradeValue'') (JNum 0))) rows (JNum s)
           = JNum (s + rows_total rows)"
  using assms
proof (induction rows arbitrary: s)
  case Nil
  show ?case by (simp add: rows_total_def)
next
  case (Cons d rows)
  let ?A = "sum_list (map (\<lambda>d. \<bar>num_value (row_value d)\<bar>) rows)"
  from Cons.prems(1) have v: "is_integer (row_value d)"
    and vs: "list_all (\<lambda>d. is_integer (row_value d)) rows"
    by simp_all
  from v obtain n where n: "row_value d = JNum (of_int n)" by (rule is_integerE)
  define b :: real where "b = of_int n"
  have rv: "row_value d = JNum b" by (simp add: n b_def)
  have ib: "is_integer (JNum b)" using v by (simp only: rv)
  have nn: "0 \<le> ?A" by (rule sum_list_nonneg) auto
  from Cons.prems(3) have bnd: "\<bar>s\<bar> + \<bar>b\<bar> + ?A \<le> 2 ^ 53"
    by (simp add: rv num_value_JNum)
  with nn have sb: "\<bar>s\<bar> + \<bar>b\<bar> \<le> 2 ^ 53" by linarith
  note e = js_add_exact(1) [OF Cons.prems(2) ib sb, of cv] js_add_exact(2) [OF Cons.prems(2) ib sb]
  from bnd have b2: "\<bar>s + b\<bar> + ?A \<le> 2 ^ 53"
    by linarith
  have o: "js_or (js_get d ''TradeValue'') (JNum 0) = JNum b"
    using rv by (simp add: row_value_def)
  have "fold (\<lambda>d sum. js_add cv sum (js_or (js_get d ''TradeValue'') (JNum 0))) (d # rows) (JNum s)
      = fold (\<lambda>d sum. js_add cv sum (js_or (js_get d ''TradeValue'') (JNum 0))) rows (JNum (s + b))"
    by (simp add: o e(1))
  also have "\<dots> = JNum (s + b + rows_total rows)"
    by (rule Cons.IH [OF vs e(2) b2])
  also have "\<dots> = JNum (s + rows_total (d # rows))"
    by (simp add: rows_total_def rv num_value_JNum)
  finally show ?case .
qed

lemma js_or_JNum_0: "js_or (JNum v) (JNum 0) = JNum v"
  by (simp add: js_or_def)

lemma js_or_JUndef: "js_or JUndef b = b"
  by (simp add: js_or_def)

lemma js_add_JNum: "js_add cv (JNum x) (JNum y) = JNum (fl (x + y))"
  by (simp add: js_add_def)

lemma by_value_desc_le: "by_value_desc cv (a, JNum p) (b, JNum q) \<le> 0 \<longleftrightarrow> q \<le> p"
  by (simp add: by_value_desc_def js_sub_cmp_def fl_le_0_iff)

text \<open>Two labels over three rows, the first label twice: the aggregation, the series'
  total and the rows' total, each with its additions in the order the code performs
  them.\<close>

lemma groupAndSum_three:
  assumes "fl (fl (0 + x) + z) < fl (0 + y)"
  shows "groupAndSum cv [ [(''Mode'', JStr ''A''), (''TradeValue'', JNum x)],
       [(''Mode'', JStr ''B''), (''TradeValue'', JNum y)],
       [(''Mode'', JStr ''A''), (''TradeValue'', JNum z)] ] ''Mode''
     = [(JStr ''B'', JNum (fl (0 + y))), (JStr ''A'', JNum (fl (fl (0 + x) + z)))]"
  using assms
  by (simp add: groupAndSum_def groupAndSum_step_def Let_def js_get_def map_get_def
      js_or_JNum_0 js_or_JUndef js_add_JNum js_sort_def by_value_desc_le)

lemma series_total_two:
  "series_total cv [(a, JNum q), (b, JNum p)] = JNum (fl (fl (0 + q) + p))"
  by (simp add: series_total_def js_add_JNum)

lemma sumTradeValue_three:
  "sumTradeValue cv [ [(''Mode'', JStr ''A''), (''TradeValue'', JNum x)],
       [(''Mode'', JStr ''B''), (''TradeValue'', JNum y)],
       [(''Mode'', JStr ''A''), (''TradeValue'', JNum z)] ] = JNum (fl (fl (fl (0 + x) + y) + z))"
  by (simp add: sumTradeValue_def js_get_def js_or_JNum_0 js_add_JNum)

lemma float_example:
  "groupAndSum example_conv
     [ [(''Mode'', JStr ''A''), (''TradeValue'', JNum (3602879701896397 / 2 ^ 55))],
       [(''Mode'', JStr ''B''), (''TradeValue'', JNum (2476979795053773 / 2 ^ 51))],
       [(''Mode'', JStr ''A''), (''TradeValue'', JNum (3602879701896397 / 2 ^ 55))] ] ''Mode''
     = [(JStr ''B'', JNum (2476979795053773 / 2 ^ 51)), (JStr ''A'', JNum (3602879701896397 / 2 ^ 54))] \<and>
   series_total example_conv [(JStr ''B'', JNum (2476979795053773 / 2 ^ 51)), (JStr ''A'', JNum (3602879701896397 / 2 ^ 54))] = JNum (5854679515581645 / 2 ^ 52) \<and>
   sumTradeValue example_conv
     [ [(''Mode'', JStr ''A''), (''TradeValue'', JNum (3602879701896397 / 2 ^ 55))],
       [(''Mode'', JStr ''B''), (''TradeValue'', JNum (2476979795053773 / 2 ^ 51))],
       [(''Mode'', JStr ''A''), (''TradeValue'', JNum (3602879701896397 / 2 ^ 55))] ] = JNum (2927339757790823 / 2 ^ 51)"
proof -
  have f1: "fl (0 + 3602879701896397 / 2 ^ 55) = 3602879701896397 / 2 ^ 55"
      by (rule fl_eqI [where e = "-4" and k = "7205759403792794", THEN trans]) (simp_all add: power_int_minus_divide)
  have f2: "fl (0 + 2476979795053773 / 2 ^ 51) = 2476979795053773 / 2 ^ 51"
      by (rule fl_eqI [where e = "0" and k = "4953959590107546", THEN trans]) (simp_all add: power_int_minus_divide)
  have f3: "fl (3602879701896397 / 2 ^ 55 + 3602879701896397 / 2 ^ 55) = 3602879701896397 / 2 ^ 54"
      by (rule fl_eqI [where e = "-3" and k = "7205759403792794", THEN trans]) (simp_all add: power_int_minus_divide)
  have f4: "fl (2476979795053773 / 2 ^ 51 + 3602879701896397 / 2 ^ 54) = 5854679515581645 / 2 ^ 52"
      by (rule fl_eqI [where e = "0" and k = "5854679515581645", THEN trans]) (simp_all add: power_int_minus_divide)
  have f5: "fl (3602879701896397 / 2 ^ 55 + 2476979795053773 / 2 ^ 51) = 1351079888211149 / 2 ^ 50"
      by (rule fl_eqI [where e = "0" and k = "5404319552844596", THEN trans]) (simp_all add: power_int_minus_divide)
  have f6: "fl (1351079888211149 / 2 ^ 50 + 3602879701896397 / 2 ^ 55) = 2927339757790823 / 2 ^ 51"
      by (rule fl_eqI [where e = "0" and k = "5854679515581646", THEN trans]) (simp_all add: power_int_minus_divide)
  have lt: "fl (fl (0 + (3602879701896397 / 2 ^ 55)) + (3602879701896397 / 2 ^ 55)) < fl (0 + (2476979795053773 / 2 ^ 51))"
    unfolding f1 f2 f3 by simp
  have a: "groupAndSum example_conv
     [ [(''Mode'', JStr ''A''), (''TradeValue'', JNum (3602879701896397 / 2 ^ 55))],
       [(''Mode'', JStr ''B''), (''TradeValue'', JNum (2476979795053773 / 2 ^ 51))],
       [(''Mode'', JStr ''A''), (''TradeValue'', JNum (3602879701896397 / 2 ^ 55))] ] ''Mode''
     = [(JStr ''B'', JNum (2476979795053773 / 2 ^ 51)), (JStr ''A'', JNum (3602879701896397 / 2 ^ 54))]"
    using groupAndSum_three [OF lt, of example_conv] unfolding f1 f2 f3 .
  have b: "series_total example_conv [(JStr ''B'', JNum (2476979795053773 / 2 ^ 51)), (JStr ''A'', JNum (3602879701896397 / 2 ^ 54))] = JNum (5854679515581645 / 2 ^ 52)"
    using series_total_two [of example_conv "JStr ''B''" "(2476979795053773 / 2 ^ 51)" "JStr ''A''" "(3602879701896397 / 2 ^ 54)"]
    unfolding f2 f4 .
  have c: "sumTradeValue example_conv
     [ [(''Mode'', JStr ''A''), (''TradeValue'', JNum (3602879701896397 / 2 ^ 55))],
       [(''Mode'', JStr ''B''), (''TradeValue'', JNum (2476979795053773 / 2 ^ 51))],
       [(''Mode'', JStr ''A''), (''TradeValue'', JNum (3602879701896397 / 2 ^ 55))] ] = JNum (2927339757790823 / 2 ^ 51)"
    using sumTradeValue_three [of example_conv "(3602879701896397 / 2 ^ 55)" "(2476979795053773 / 2 ^ 51)" "(3602879701896397 / 2 ^ 55)"]
    unfolding f1 f5 f6 .
  from a b c show ?thesis by (intro conjI)
qed

lemma large_example:
  "groupAndSum example_conv
     [ [(''Mode'', JStr ''A''), (''TradeValue'', JNum 1)],
       [(''Mode'', JStr ''B''), (''TradeValue'', JNum 9007199254740992)],
       [(''Mode'', JStr ''A''), (''TradeValue'', JNum 1)] ] ''Mode''
     = [(JStr ''B'', JNum 9007199254740992), (JStr ''A'', JNum 2)] \<and>
   series_total example_conv [(JStr ''B'', JNum 9007199254740992), (JStr ''A'', JNum 2)]
     = JNum 9007199254740994 \<and>
   sumTradeValue example_conv
     [ [(''Mode'', JStr ''A''), (''TradeValue'', JNum 1)],
       [(''Mode'', JStr ''B''), (''TradeValue'', JNum 9007199254740992)],
       [(''Mode'', JStr ''A''), (''TradeValue'', JNum 1)] ] = JNum 9007199254740992"
proof -
  have g1: "fl (0 + 1) = 1"
      by (rule fl_eqI [where e = "0" and k = "4503599627370496", THEN trans]) (simp_all add: power_int_minus_divide)
  have g2: "fl (0 + 9007199254740992) = 9007199254740992"
      by (rule fl_eqI [where e = "53" and k = "4503599627370496", THEN trans]) (simp_all add: power_int_minus_divide)
  have g3: "fl (1 + 1) = 2"
      by (rule fl_eqI [where e = "1" and k = "4503599627370496", THEN trans]) (simp_all add: power_int_minus_divide)
  have g4: "fl (9007199254740992 + 2) = 9007199254740994"
      by (rule fl_eqI [where e = "53" and k = "4503599627370497", THEN trans]) (simp_all add: power_int_minus_divide)
  have g5: "fl (1 + 9007199254740992) = 9007199254740992"
      by (rule fl_tieI [where e = "53" and k = "4503599627370496", THEN trans]) (simp_all add: power_int_minus_divide)
  have g6: "fl (9007199254740992 + 1) = 9007199254740992"
      by (rule fl_tieI [where e = "53" and k = "4503599627370496", THEN trans]) (simp_all add: power_int_minus_divide)
  have lt: "fl (fl (0 + 1) + 1) < fl (0 + 9007199254740992)"
    unfolding g1 g2 g3 by simp
  have a: "groupAndSum example_conv
     [ [(''Mode'', JStr ''A''), (''TradeValue'', JNum 1)],
       [(''Mode'', JStr ''B''), (''TradeValue'', JNum 9007199254740992)],
       [(''Mode'', JStr ''A''), (''TradeValue'', JNum 1)] ] ''Mode''
     = [(JStr ''B'', JNum 9007199254740992), (JStr ''A'', JNum 2)]"
    using groupAndSum_three [OF lt, of example_conv] unfolding g1 g2 g3 .
  have b: "series_total example_conv [(JStr ''B'', JNum 9007199254740992), (JStr ''A'', JNum 2)]
     = JNum 9007199254740994"
    using series_total_two [of example_conv "JStr ''B''" "9007199254740992" "JStr ''A''" "2"]
    unfolding g2 g4 .
  have c: "sumTradeValue example_conv
     [ [(''Mode'', JStr ''A''), (''TradeValue'', JNum 1)],
       [(''Mode'', JStr ''B''), (''TradeValue'', JNum 9007199254740992)],
       [(''Mode'', JStr ''A''), (''TradeValue'', JNum 1)] ] = JNum 9007199254740992"
    using sumTradeValue_three [of example_conv "1" "9007199254740992" "1"]
    unfolding g1 g5 g6 .
  from a b c show ?thesis by (intro conjI)
qed

lemma topStates_example:
  "length (topStates example_conv (Some
     [ [(''State'', JStr ''A''), (''TradeValue'', JNum 1)],
       [(''State'', JStr ''B''), (''TradeValue'', JNum 1)],
       [(''State'', JStr ''C''), (''TradeValue'', JNum 1)],
       [(''State'', JStr ''D''), (''TradeValue'', JNum 1)],
       [(''State'', JStr ''E''), (''TradeValue'', JNum 1)],
       [(''State'', JStr ''F''), (''TradeValue'', JNum 1)],
       [(''State'', JStr ''G''), (''TradeValue'', JNum 1)],
       [(''State'', JStr ''H''), (''TradeValue'', JNum 1)],
       [(''State'', JStr ''I''), (''TradeValue'', JNum 1)],
       [(''State'', JStr ''J''), (''TradeValue'', JNum 1)],
       [(''State'', JStr ''K''), (''TradeValue'', JNum 1)] ]) JNull) = 10 \<and>
   series_total example_conv (topStates example_conv (Some
     [ [(''State'', JStr ''A''), (''TradeValue'', JNum 1)],
       [(''State'', JStr ''B''), (''TradeValue'', JNum 1)],
       [(''State'', JStr ''C''), (''TradeValue'', JNum 1)],
       [(''State'', JStr ''D''), (''TradeValue'', JNum 1)],
       [(''State'', JStr ''E''), (''TradeValue'', JNum 1)],
       [(''State'', JStr ''F''), (''TradeValue'', JNum 1)],
       [(''State'', JStr ''G''), (''TradeValue'', JNum 1)],
       [(''State'', JStr ''H''), (''TradeValue'', JNum 1)],
       [(''State'', JStr ''I''), (''TradeValue'', JNum 1)],
       [(''State'', JStr ''J''), (''TradeValue'', JNum 1)],
       [(''State'', JStr ''K''), (''TradeValue'', JNum 1)] ]) JNull) = JNum 10 \<and>
   sumTradeValue example_conv
     [ [(''State'', JStr ''A''), (''TradeValue'', JNum 1)],
       [(''State'', JStr ''B''), (''TradeValue'', JNum 1)],
       [(''State'', JStr ''C''), (''TradeValue'', JNum 1)],
       [(''State'', JStr ''D''), (''TradeValue'', JNum 1)],
       [(''State'', JStr ''E''), (''TradeValue'', JNum 1)],
       [(''State'', JStr ''F''), (''TradeValue'', JNum 1)],
       [(''State'', JStr ''G''), (''TradeValue'', JNum 1)],
       [(''State'', JStr ''H''), (''TradeValue'', JNum 1)],
       [(''State'', JStr ''I''), (''TradeValue'', JNum 1)],
       [(''State'', JStr ''J''), (''TradeValue'', JNum 1)],
       [(''State'', JStr ''K''), (''TradeValue'', JNum 1)] ] = JNum 11"
  by (simp add: topStates_def topStates_step_def Let_def js_get_def map_get_def map_has_def
      js_or_JNum_0 js_add_JNum js_sort_def by_value_desc_le series_total_def sumTradeValue_def
      fl_numeral fl_1 fl_0)

text \<open>
  C5 (as amended). For any dataset array and any filter combination, for the Home
  page's trade-by-mode grouping (\<open>modeData\<close>) and for the group-and-sum helper
  (\<open>groupAndSum\<close>): when the values \<open>d.TradeValue || 0\<close> of the rows that carry a
  grouping label (a truthy one) are integers whose magnitudes add up to at most
  \<open>2^53\<close>, so that no addition of doubles rounds, the sum of the values of the
  aggregated series equals the sum of the value field over those labelled rows. This
  holds of the sums as the code takes them (a \<open>reduce\<close> from left to right over the
  series, \<open>sumTradeValue\<close> over the rows) and of the exact sums. Rows without a label
  are not part of the series; when every row has a label, the labelled rows are all
  the rows.
\<close>

theorem aggregated_series_total:
  "(exact_values (labelled key rows) \<longrightarrow>
      series_total cv (groupAndSum cv rows key) = JNum (rows_total (labelled key rows)) \<and>
      sumTradeValue cv (labelled key rows) = JNum (rows_total (labelled key rows)) \<and>
      sum_list (series_values (groupAndSum cv rows key)) = rows_total (labelled key rows)) \<and>
   (exact_values (labelled ''Mode'' rows) \<longrightarrow>
      series_total cv (modeData cv (Some rows)) = JNum (rows_total (labelled ''Mode'' rows)) \<and>
      sumTradeValue cv (labelled ''Mode'' rows) = JNum (rows_total (labelled ''Mode'' rows)) \<and>
      sum_list (series_values (modeData cv (Some rows))) = rows_total (labelled ''Mode'' rows)) \<and>
   ((\<forall>d \<in> set rows. truthy (js_get d key)) \<longrightarrow> labelled key rows = rows)"
proof -
  have e: "integer_series ([] :: jsmap)" by (simp add: integer_series_def)
  have z: "is_integer (JNum 0)" by (rule is_integer_0)
  have total: "series_total cv (js_sort (by_value_desc cv) m) = JNum (rows_total rs) \<and>
      sumTradeValue cv rs = JNum (rows_total rs) \<and>
      sum_list (series_values (js_sort (by_value_desc cv) m)) = rows_total rs"
    if x: "exact_values rs"
      and f: "integer_series m \<and> sum_list (series_values m) = sum_list (series_values []) + rows_total rs \<and>
        sum_list (map abs (series_values m))
          \<le> sum_list (map abs (series_values []))
              + sum_list (map (\<lambda>d. \<bar>num_value (row_value d)\<bar>) rs)"
    for m :: jsmap and rs
  proof -
    from x have v: "list_all (\<lambda>d. is_integer (row_value d)) rs"
      and b: "sum_list (map (\<lambda>d. \<bar>num_value (row_value d)\<bar>) rs) \<le> 2 ^ 53"
      by (simp_all add: exact_values_def)
    let ?s = "js_sort (by_value_desc cv) m"
    from f have i: "integer_series ?s"
      and s: "sum_list (series_values ?s) = rows_total rs"
      and a: "sum_list (map abs (series_values ?s)) \<le> 2 ^ 53"
      using b by (simp_all add: series_values_sort) (simp_all add: series_values_def)
    from a have a': "\<bar>0::real\<bar> + sum_list (map abs (series_values ?s)) \<le> 2 ^ 53" by simp
    from b have b': "\<bar>0::real\<bar> + sum_list (map (\<lambda>d. \<bar>num_value (row_value d)\<bar>) rs) \<le> 2 ^ 53"
      by simp
    have "series_total cv ?s = JNum (0 + sum_list (series_values ?s))"
      unfolding series_total_def by (rule reduce_series_exact [OF i z a'])
    then have t1: "series_total cv ?s = JNum (rows_total rs)"
      by (simp add: s)
    have "sumTradeValue cv rs = JNum (0 + rows_total rs)"
      unfolding sumTradeValue_def by (rule reduce_rows_exact [OF v z b'])
    then have t2: "sumTradeValue cv rs = JNum (rows_total rs)"
      by simp
    from t1 t2 s show ?thesis by (intro conjI)
  qed
  have g: "series_total cv (groupAndSum cv rows key) = JNum (rows_total (labelled key rows)) \<and>
      sumTradeValue cv (labelled key rows) = JNum (rows_total (labelled key rows)) \<and>
      sum_list (series_values (groupAndSum cv rows key)) = rows_total (labelled key rows)"
    if x: "exact_values (labelled key rows)"
  proof -
    from x have v: "list_all (\<lambda>d. is_integer (row_value d)) (labelled key rows)"
      and b: "sum_list (map abs (series_values []))
         + sum_list (map (\<lambda>d. \<bar>num_value (row_value d)\<bar>) (labelled key rows)) \<le> 2 ^ 53"
      by (simp_all add: exact_values_def series_values_def)
    from total [OF x fold_groupAndSum_inv [OF e v b, of cv] ]
    show ?thesis by (simp only: groupAndSum_def)
  qed
  have h: "series_total cv (modeData cv (Some rows)) = JNum (rows_total (labelled ''Mode'' rows)) \<and>
      sumTradeValue cv (labelled ''Mode'' rows) = JNum (rows_total (labelled ''Mode'' rows)) \<and>
      sum_list (series_values (modeData cv (Some rows))) = rows_total (labelled ''Mode'' rows)"
    if x: "exact_values (labelled ''Mode'' rows)"
  proof -
    from x have v: "list_all (\<lambda>d. is_integer (row_value d)) (labelled ''Mode'' rows)"
      and b: "sum_list (map abs (series_values []))
         + sum_list (map (\<lambda>d. \<bar>num_value (row_value d)\<bar>) (labelled ''Mode'' rows)) \<le> 2 ^ 53"
      by (simp_all add: exact_values_def series_values_def)
    from total [OF x fold_modeData_inv [OF e v b, of cv] ]
    show ?thesis by (simp add: modeData_def)
  qed
  have l: "labelled key rows = rows" if "\<forall>d \<in> set rows. truthy (js_get d key)"
    using that by (simp add: labelled_def)
  show ?thesis
    by (rule conjI, rule impI, erule g, rule conjI, rule impI, erule h, rule impI, erule l)
qed

theorem aggregated_series_total_witness:
  "exact_values (labelled ''Mode''
     [ [(''Year'', JNum 2022), (''Mode'', JStr ''Truck''), (''TradeValue'', JNum 10)],
       [(''Year'', JNum 2023), (''Mode'', JStr ''Rail''), (''TradeValue'', JNum 20)],
       [(''Year'', JNum 2024), (''Mode'', JStr ''Truck''), (''TradeValue'', JNum 30)] ]) \<and>
   series_total example_conv (modeData example_conv (Some
     [ [(''Year'', JNum 2022), (''Mode'', JStr ''Truck''), (''TradeValue'', JNum 10)],
       [(''Year'', JNum 2023), (''Mode'', JStr ''Rail''), (''TradeValue'', JNum 20)],
       [(''Year'', JNum 2024), (''Mode'', JStr ''Truck''), (''TradeValue'', JNum 30)] ])) = JNum 60 \<and>
   series_total example_conv (groupAndSum example_conv
     [ [(''Year'', JNum 2022), (''Mode'', JStr ''Truck''), (''TradeValue'', JNum 10)],
       [(''Year'', JNum 2023), (''Mode'', JStr ''Rail''), (''TradeValue'', JNum 20)],
       [(''Year'', JNum 2024), (''Mode'', JStr ''Truck''), (''TradeValue'', JNum 30)] ] ''Mode'') = JNum 60 \<and>
   sumTradeValue example_conv
     [ [(''Year'', JNum 2022), (''Mode'', JStr ''Truck''), (''TradeValue'', JNum 10)],
       [(''Year'', JNum 2023), (''Mode'', JStr ''Rail''), (''TradeValue'', JNum 20)],
       [(''Year'', JNum 2024), (''Mode'', JStr ''Truck''), (''TradeValue'', JNum 30)] ] = JNum 60"
proof -
  let ?rows = "[ [(''Year'', JNum 2022), (''Mode'', JStr ''Truck''), (''TradeValue'', JNum 10)],
       [(''Year'', JNum 2023), (''Mode'', JStr ''Rail''), (''TradeValue'', JNum 20)],
       [(''Year'', JNum 2024), (''Mode'', JStr ''Truck''), (''TradeValue'', JNum 30)] ] :: row list"
  have l: "labelled ''Mode'' ?rows = ?rows"
    by (simp add: labelled_def js_get_def)
  have x: "exact_values (labelled ''Mode'' ?rows)"
    unfolding l
    by (simp add: exact_values_def row_value_def js_get_def js_or_def is_integer_def num_value_def)
  have t: "rows_total ?rows = 60"
    by (simp add: rows_total_def row_value_def js_get_def js_or_def num_value_def)
  note a = aggregated_series_total [of "''Mode''" ?rows example_conv]
  note g = a [THEN conjunct1, THEN mp, OF x]
  note m = a [THEN conjunct2, THEN conjunct1, THEN mp, OF x]
  from g [THEN conjunct1] have g1: "series_total example_conv (groupAndSum example_conv ?rows ''Mode'') = JNum 60"
    unfolding l t .
  from m [THEN conjunct1] have m1: "series_total example_conv (modeData example_conv (Some ?rows)) = JNum 60"
    unfolding l t .
  from g [THEN conjunct2, THEN conjunct1] have s1: "sumTradeValue example_conv ?rows = JNum 60"
    unfolding l t .
  from x m1 g1 s1 show ?thesis by (intro conjI)
qed

text \<open>
  The claim as first stated fails in four ways. A row without a label is dropped by the
  aggregators' guard (\<open>if (!d.Mode) return\<close>, \<open>if (!label) return\<close>), so the series'
  sum falls short of the rows' sum: 10 against 15. With the values 0.1, 1.1 and 0.1 the
  additions round, and as the series adds them in another order than the rows do, its
  total is \<open>1.3\<close> against \<open>1.3000000000000003\<close>. With the integers 1, \<open>2^53\<close>
  and 1 the rows' sum stays at \<open>2^53\<close> while the series has \<open>2^53 + 2\<close>. And not
  every page aggregator keeps all of its groups: \<open>topStates\<close> shows the first ten
  states only, so with eleven states of value 1 its series adds up to 10 against 11.
\<close>

theorem aggregated_series_counterexample:
  "modeData example_conv (Some
     [ [(''Mode'', JStr ''Truck''), (''TradeValue'', JNum 10)],
       [(''Mode'', JNull), (''TradeValue'', JNum 5)] ]) = [(JStr ''Truck'', JNum 10)] \<and>
   groupAndSum example_conv
     [ [(''Mode'', JStr ''Truck''), (''TradeValue'', JNum 10)],
       [(''Mode'', JNull), (''TradeValue'', JNum 5)] ] ''Mode'' = [(JStr ''Truck'', JNum 10)] \<and>
   series_total example_conv [(JStr ''Truck'', JNum 10)] = JNum 10 \<and>
   sumTradeValue example_conv
     [ [(''Mode'', JStr ''Truck''), (''TradeValue'', JNum 10)],
       [(''Mode'', JNull), (''TradeValue'', JNum 5)] ] = JNum 15 \<and>
   groupAndSum example_conv
     [ [(''Mode'', JStr ''A''), (''TradeValue'', JNum (3602879701896397 / 2 ^ 55))],
       [(''Mode'', JStr ''B''), (''TradeValue'', JNum (2476979795053773 / 2 ^ 51))],
       [(''Mode'', JStr ''A''), (''TradeValue'', JNum (3602879701896397 / 2 ^ 55))] ] ''Mode''
     = [(JStr ''B'', JNum (2476979795053773 / 2 ^ 51)), (JStr ''A'', JNum (3602879701896397 / 2 ^ 54))] \<and>
   series_total example_conv [(JStr ''B'', JNum (2476979795053773 / 2 ^ 51)), (JStr ''A'', JNum (3602879701896397 / 2 ^ 54))] = JNum (5854679515581645 / 2 ^ 52) \<and>
   sumTradeValue example_conv
     [ [(''Mode'', JStr ''A''), (''TradeValue'', JNum (3602879701896397 / 2 ^ 55))],
       [(''Mode'', JStr ''B''), (''TradeValue'', JNum (2476979795053773 / 2 ^ 51))],
       [(''Mode'', JStr ''A''), (''TradeValue'', JNum (3602879701896397 / 2 ^ 55))] ] = JNum (2927339757790823 / 2 ^ 51) \<and>
   ((5854679515581645 / 2 ^ 52) :: real) \<noteq> (2927339757790823 / 2 ^ 51) \<and>
   groupAndSum example_conv
     [ [(''Mode'', JStr ''A''), (''TradeValue'', JNum 1)],
       [(''Mode'', JStr ''B''), (''TradeValue'', JNum 9007199254740992)],
       [(''Mode'', JStr ''A''), (''TradeValue'', JNum 1)] ] ''Mode''
     = [(JStr ''B'', JNum 9007199254740992), (JStr ''A'', JNum 2)] \<and>
   series_total example_conv [(JStr ''B'', JNum 9007199254740992), (JStr ''A'', JNum 2)]
     = JNum 9007199254740994 \<and>
   sumTradeValue example_conv
     [ [(''Mode'', JStr ''A''), (''TradeValue'', JNum 1)],
       [(''Mode'', JStr ''B''), (''TradeValue'', JNum 9007199254740992)],
       [(''Mode'', JStr ''A''), (''TradeValue'', JNum 1)] ] = JNum 9007199254740992 \<and>
   length (topStates example_conv (Some
     [ [(''State'', JStr ''A''), (''TradeValue'', JNum 1)],
       [(''State'', JStr ''B''), (''TradeValue'', JNum 1)],
       [(''State'', JStr ''C''), (''TradeValue'', JNum 1)],
       [(''State'', JStr ''D''), (''TradeValue'', JNum 1)],
       [(''State'', JStr ''E''), (''TradeValue'', JNum 1)],
       [(''State'', JStr ''F''), (''TradeValue'', JNum 1)],
       [(''State'', JStr ''G''), (''TradeValue'', JNum 1)],
       [(''State'', JStr ''H''), (''TradeValue'', JNum 1)],
       [(''State'', JStr ''I''), (''TradeValue'', JNum 1)],
       [(''State'', JStr ''J''), (''TradeValue'', JNum 1)],
       [(''State'', JStr ''K''), (''TradeValue'', JNum 1)] ]) JNull) = 10 \<and>
   series_total example_conv (topStates example_conv (Some
     [ [(''State'', JStr ''A''), (''TradeValue'', JNum 1)],
       [(''State'', JStr ''B''), (''TradeValue'', JNum 1)],
       [(''State'', JStr ''C''), (''TradeValue'', JNum 1)],
       [(''State'', JStr ''D''), (''TradeValue'', JNum 1)],
       [(''State'', JStr ''E''), (''TradeValue'', JNum 1)],
       [(''State'', JStr ''F''), (''TradeValue'', JNum 1)],
       [(''State'', JStr ''G''), (''TradeValue'', JNum 1)],
       [(''State'', JStr ''H''), (''TradeValue'', JNum 1)],
       [(''State'', JStr ''I''), (''TradeValue'', JNum 1)],
       [(''State'', JStr ''J''), (''TradeValue'', JNum 1)],
       [(''State'', JStr ''K''), (''TradeValue'', JNum 1)] ]) JNull) = JNum 10 \<and>
   sumTradeValue example_conv
     [ [(''State'', JStr ''A''), (''TradeValue'', JNum 1)],
       [(''State'', JStr ''B''), (''TradeValue'', JNum 1)],
       [(''State'', JStr ''C''), (''TradeValue'', JNum 1)],
       [(''State'', JStr ''D''), (''TradeValue'', JNum 1)],
       [(''State'', JStr ''E''), (''TradeValue'', JNum 1)],
       [(''State'', JStr ''F''), (''TradeValue'', JNum 1)],
       [(''State'', JStr ''G''), (''TradeValue'', JNum 1)],
       [(''State'', JStr ''H''), (''TradeValue'', JNum 1)],
       [(''State'', JStr ''I''), (''TradeValue'', JNum 1)],
       [(''State'', JStr ''J''), (''TradeValue'', JNum 1)],
       [(''State'', JStr ''K''), (''TradeValue'', JNum 1)] ] = JNum 11"
proof -
  have u: "modeData example_conv (Some
     [ [(''Mode'', JStr ''Truck''), (''TradeValue'', JNum 10)],
       [(''Mode'', JNull), (''TradeValue'', JNum 5)] ]) = [(JStr ''Truck'', JNum 10)] \<and>
   groupAndSum example_conv
     [ [(''Mode'', JStr ''Truck''), (''TradeValue'', JNum 10)],
       [(''Mode'', JNull), (''TradeValue'', JNum 5)] ] ''Mode'' = [(JStr ''Truck'', JNum 10)] \<and>
   series_total example_conv [(JStr ''Truck'', JNum 10)] = JNum 10 \<and>
   sumTradeValue example_conv
     [ [(''Mode'', JStr ''Truck''), (''TradeValue'', JNum 10)],
       [(''Mode'', JNull), (''TradeValue'', JNum 5)] ] = JNum 15"
    by (simp add: modeData_def modeData_step_def groupAndSum_def groupAndSum_step_def Let_def
        js_get_def map_get_def map_has_def js_or_JNum_0 js_or_JUndef js_add_JNum js_sort_def
        series_total_def sumTradeValue_def fl_numeral fl_0)
  have n: "((5854679515581645 / 2 ^ 52) :: real) \<noteq> (2927339757790823 / 2 ^ 51)"
    by simp
  from u float_example n large_example topStates_example show ?thesis
    by (intro conjI) simp_all
qed
section \<open>CSV serialisation and its round trip\<close>

lemma csv_cell_enc: "csv_cell cv v = enc (cell_text cv v)"
  by (simp add: csv_cell_def cell_text_def enc_def Let_def)

lemma parse_plain_run:
  assumes "\<not> list_ex csv_special t"
  shows "parse_csv_aux Plain f r rs (t @ rest) = parse_csv_aux Plain (rev t @ f) r rs rest"
  using assms
  by (induction t arbitrary: f) (simp_all add: csv_special_def)

lemma parse_quoted_run:
  "parse_csv_aux Quoted f r rs (quote_doubled t @ CHR 0x22 # rest)
     = parse_csv_aux QuoteSeen (rev t @ f) r rs rest"
  by (induction t arbitrary: f) (simp_all add: quote_doubled_def)

lemma parse_field:
  assumes "sep_started rest"
  shows "parse_csv_aux Plain [] r rs (enc t @ rest) = after_field t r rs rest"
proof (cases "list_ex csv_special t")
  case False
  then have "parse_csv_aux Plain [] r rs (enc t @ rest) = parse_csv_aux Plain (rev t) r rs rest"
    using parse_plain_run [of t "[]" r rs rest] by (simp add: enc_def)
  also have "\<dots> = after_field t r rs rest"
    using assms by (cases rest) (auto simp: sep_started_def after_field_def)
  finally show ?thesis .
next
  case True
  then have "parse_csv_aux Plain [] r rs (enc t @ rest)
      = parse_csv_aux Quoted [] r rs (quote_doubled t @ CHR 0x22 # rest)"
    by (simp add: enc_def)
  also have "\<dots> = parse_csv_aux QuoteSeen (rev t) r rs rest"
    using parse_quoted_run [of "[]" r rs t rest] by simp
  also have "\<dots> = after_field t r rs rest"
    using assms by (cases rest) (auto simp: sep_started_def after_field_def)
  finally show ?thesis .
qed

lemma parse_line:
  assumes "ts \<noteq> []" and "line_end rest"
  shows "parse_csv_aux Plain [] r rs (join '','' (map enc ts) @ rest)
           = after_line (rev r @ ts) rs rest"
  using assms
proof (induction ts arbitrary: r rule: list_nonempty_induct)
  case (single t)
  then have "sep_started rest" by (auto simp: line_end_def sep_started_def)
  from parse_field [OF this] single show ?case
    by (cases rest) (auto simp: after_field_def after_line_def line_end_def)
next
  case (cons t ts)
  obtain u us where ts: "ts = u # us" using cons.hyps by (cases ts) auto
  have "parse_csv_aux Plain [] r rs (join '','' (map enc (t # ts)) @ rest)
      = parse_csv_aux Plain [] r rs (enc t @ (CHR '','' # (join '','' (map enc ts) @ rest)))"
    by (simp add: ts)
  also have "\<dots> = after_field t r rs (CHR '','' # (join '','' (map enc ts) @ rest))"
    by (rule parse_field) (simp add: sep_started_def)
  also have "\<dots> = parse_csv_aux Plain [] (t # r) rs (join '','' (map enc ts) @ rest)"
    by (simp add: after_field_def)
  also have "\<dots> = after_line (rev (t # r) @ ts) rs rest"
    by (rule cons.IH [OF cons.prems])
  finally show ?case by simp
qed

lemma parse_lines:
  assumes "tss \<noteq> []" and "\<forall>ts \<in> set tss. ts \<noteq> []"
  shows "parse_csv_aux Plain [] [] rs (join [CHR 0x0A] (map (\<lambda>ts. join '','' (map enc ts)) tss))
           = rev rs @ tss"
  using assms
proof (induction tss arbitrary: rs rule: list_nonempty_induct)
  case (single ts)
  then have "ts \<noteq> []" by simp
  from parse_line [OF this, of "[]" "[]" rs] show ?case
    by (simp add: line_end_def after_line_def)
next
  case (cons ts tss)
  obtain us uss where tss: "tss = us # uss" using cons.hyps by (cases tss) auto
  let ?line = "\<lambda>ts. join '','' (map enc ts)"
  from cons.prems have ne: "ts \<noteq> []" and rest: "\<forall>ts \<in> set tss. ts \<noteq> []" by simp_all
  have "parse_csv_aux Plain [] [] rs (join [CHR 0x0A] (map ?line (ts # tss)))
      = parse_csv_aux Plain [] [] rs (?line ts @ (CHR 0x0A # join [CHR 0x0A] (map ?line tss)))"
    by (simp add: tss)
  also have "\<dots> = after_line ts rs (CHR 0x0A # join [CHR 0x0A] (map ?line tss))"
    using parse_line [OF ne, of "CHR 0x0A # join [CHR 0x0A] (map ?line tss)" "[]" rs]
    by (simp add: line_end_def)
  also have "\<dots> = parse_csv_aux Plain [] [] (ts # rs) (join [CHR 0x0A] (map ?line tss))"
    by (simp add: after_line_def)
  also have "\<dots> = rev (ts # rs) @ tss"
    by (rule cons.IH [OF rest])
  finally show ?case by simp
qed

lemma enc_plain: "\<not> list_ex csv_special k \<Longrightarrow> enc k = k"
  by (simp add: enc_def)

lemma csv_line_enc:
  "join '','' (map (\<lambda>k. csv_cell cv (js_get row k)) keys)
     = join '','' (map enc (map (\<lambda>k. cell_text cv (js_get row k)) keys))"
  by (simp add: csv_cell_enc comp_def)

lemma csv_quoted_iff:
  "(csv_cell cv v \<noteq> [] \<and> hd (csv_cell cv v) = CHR 0x22) \<longleftrightarrow> list_ex csv_special (cell_text cv v)"
proof (cases "list_ex csv_special (cell_text cv v)")
  case True
  then show ?thesis by (simp add: csv_cell_enc enc_def)
next
  case False
  then have "csv_cell cv v = cell_text cv v" by (simp add: csv_cell_enc enc_def)
  moreover from False have "cell_text cv v \<noteq> [] \<longrightarrow> hd (cell_text cv v) \<noteq> CHR 0x22"
    by (cases "cell_text cv v") (auto simp: csv_special_def)
  ultimately show ?thesis using False by auto
qed

text \<open>
  C6 (as amended). For every non-empty array of flat row objects whose first row has at
  least one column and plain column names (no comma, quote or line break), CSV
  serialisation derives the column order from the first row's keys, quotes exactly
  those cells whose text contains a comma, a quote or a line break (doubling embedded
  quotes), and prepends a byte-order mark; re-parsing the serialised output (after the
  mark) by splitting on commas and line feeds while respecting quotes gives back the
  column names and, for every row, the text of its values at the first row's columns
  (\<open>null\<close> and \<open>undefined\<close> as the empty text), including values with embedded commas,
  quotes and line breaks. Values under keys that the first row lacks are not exported.
\<close>

theorem csv_round_trip:
  assumes rows: "rows = first # rest"
    and cols: "first \<noteq> []"
    and plain: "plain_keys first"
  shows "\<exists>name content.
           downloadCsv cv (Some rows) fname = [DownloadFile name content] \<and>
           take 3 content = BOM \<and>
           parse_csv (drop 3 content) = csv_table cv rows \<and>
           hd (csv_table cv rows) = map fst first \<and>
           tl (csv_table cv rows) = map (\<lambda>row. map (\<lambda>k. cell_text cv (js_get row k)) (map fst first)) rows \<and>
           (\<forall>v. (csv_cell cv v \<noteq> [] \<and> hd (csv_cell cv v) = CHR 0x22)
                   \<longleftrightarrow> list_ex csv_special (cell_text cv v))"
proof -
  let ?keys = "map fst first"
  let ?cells = "\<lambda>row. map (\<lambda>k. cell_text cv (js_get row k)) ?keys"
  let ?line = "\<lambda>ts. join '','' (map enc ts)"
  let ?csv = "join [CHR 0x0A] (join '','' ?keys # map (\<lambda>row. join '','' (map (\<lambda>k. csv_cell cv (js_get row k)) ?keys)) rows)"
  let ?name = "(case fname of None \<Rightarrow> ''data'' | Some f \<Rightarrow> f) @ ''.csv''"
  have dl: "downloadCsv cv (Some rows) fname = [DownloadFile ?name (BOM @ ?csv)]"
    by (simp add: downloadCsv_def rows Let_def)
  have kne: "?keys \<noteq> []" using cols by simp
  have kenc: "map enc ?keys = ?keys"
    using plain by (simp add: plain_keys_def list_all_iff enc_plain map_idI)
  have table: "csv_table cv rows = ?keys # map ?cells rows"
    by (simp add: csv_table_def rows)
  have "?csv = join [CHR 0x0A] (?line ?keys # map (\<lambda>row. ?line (?cells row)) rows)"
    by (simp only: kenc csv_line_enc)
  also have "?line ?keys # map (\<lambda>row. ?line (?cells row)) rows = map ?line (?keys # map ?cells rows)"
    by (simp only: list.map map_map comp_def)
  finally have "?csv = join [CHR 0x0A] (map ?line (?keys # map ?cells rows))" .
  moreover have "parse_csv_aux Plain [] [] [] (join [CHR 0x0A] (map ?line (?keys # map ?cells rows)))
      = rev [] @ (?keys # map ?cells rows)"
    by (rule parse_lines) (use kne in auto)
  ultimately have p: "parse_csv ?csv = csv_table cv rows"
    by (simp add: parse_csv_def table)
  have b: "take 3 (BOM @ ?csv) = BOM" "drop 3 (BOM @ ?csv) = ?csv"
    by (simp_all add: BOM_def)
  show ?thesis
    using dl b p table csv_quoted_iff [of cv]
    by (intro exI [of _ ?name] exI [of _ "BOM @ ?csv"]) simp
qed

theorem csv_round_trip_witness:
  "plain_keys [(''label'', JStr ''a,b''), (''note'', JStr (''say '' @ [CHR 0x22] @ ''hi'' @ [CHR 0x22]))] \<and>
   (\<exists>name content.
      downloadCsv example_conv
        (Some [ [(''label'', JStr ''a,b''), (''note'', JStr (''say '' @ [CHR 0x22] @ ''hi'' @ [CHR 0x22]))],
               [(''label'', JStr (''l1'' @ [CHR 0x0A] @ ''l2'')), (''note'', JNull)] ])
        (Some ''t'') = [DownloadFile name content] \<and>
      take 3 content = BOM \<and>
      parse_csv (drop 3 content) =
        [ [''label'', ''note''],
         [''a,b'', ''say '' @ [CHR 0x22] @ ''hi'' @ [CHR 0x22] ],
         [''l1'' @ [CHR 0x0A] @ ''l2'', ''''] ])"
proof -
  let ?first = "[(''label'', JStr ''a,b''), (''note'', JStr (''say '' @ [CHR 0x22] @ ''hi'' @ [CHR 0x22]))] :: row"
  let ?rest = "[ [(''label'', JStr (''l1'' @ [CHR 0x0A] @ ''l2'')), (''note'', JNull)] ] :: row list"
  have c: "?first \<noteq> []" by simp
  have p: "plain_keys ?first"
    by (simp add: plain_keys_def csv_special_def)
  from csv_round_trip [OF refl c p, of example_conv ?rest "Some ''t''"]
  obtain name content where r:
      "downloadCsv example_conv (Some (?first # ?rest)) (Some ''t'') = [DownloadFile name content]"
      "take 3 content = BOM"
      "parse_csv (drop 3 content) = csv_table example_conv (?first # ?rest)"
    by blast
  have t: "csv_table example_conv (?first # ?rest) =
        [ [''label'', ''note''],
         [''a,b'', ''say '' @ [CHR 0x22] @ ''hi'' @ [CHR 0x22] ],
         [''l1'' @ [CHR 0x0A] @ ''l2'', ''''] ]"
    by (simp add: csv_table_def cell_text_def js_get_def Object_prototype_keys_def)
  from r(3) have "parse_csv (drop 3 content) =
        [ [''label'', ''note''],
         [''a,b'', ''say '' @ [CHR 0x22] @ ''hi'' @ [CHR 0x22] ],
         [''l1'' @ [CHR 0x0A] @ ''l2'', ''''] ]"
    unfolding t .
  with r(1,2) p show ?thesis by blast
qed

text \<open>
  The round trip does not reproduce every original field value: the columns are the
  first row's keys, so the value \<open>x\<close> that a later row holds under another key is in
  no cell of the output.
\<close>

theorem csv_later_row_keys_counterexample:
  "downloadCsv example_conv (Some [ [(''a'', JStr ''u'')], [(''b'', JStr ''x'')] ]) None
     = [DownloadFile ''data.csv'' (BOM @ ''a'' @ [CHR 0x0A] @ ''u'' @ [CHR 0x0A])] \<and>
   parse_csv (''a'' @ [CHR 0x0A] @ ''u'' @ [CHR 0x0A]) = [ [''a''], [''u''], [''''] ] \<and>
   js_get [(''b'', JStr ''x'')] ''b'' = JStr ''x''"
  by (simp add: downloadCsv_def csv_cell_def js_get_def Object_prototype_keys_def parse_csv_def csv_special_def Let_def)

text \<open>The header line is the keys joined as they are: a column name with a comma reads
  back as two columns.\<close>

lemma csv_header_unquoted_example:
  "downloadCsv example_conv (Some [ [(''a,b'', JStr ''u'')] ]) None
     = [DownloadFile ''data.csv'' (BOM @ ''a,b'' @ [CHR 0x0A] @ ''u'')] \<and>
   parse_csv (''a,b'' @ [CHR 0x0A] @ ''u'') = [ [''a'', ''b''], [''u''] ]"
  by (simp add: downloadCsv_def csv_cell_def js_get_def Object_prototype_keys_def parse_csv_def csv_special_def Let_def)

section \<open>Export failures\<close>

text \<open>
  C7. Export failures raise no exception: when the source SVG has zero measured width or
  height, or fails to decode as an image, the PNG export logs a warning and produces no
  download; and when CSV export is invoked with an empty or absent array it returns
  without doing anything.
\<close>

theorem export_failures_are_silent:
  "(has_svg \<and> (width = 0 \<or> height = 0) \<longrightarrow>
      (\<exists>msg. exportChartPng has_svg width height ev png fname = [ConsoleWarn msg])) \<and>
   (has_svg \<and> width \<noteq> 0 \<and> height \<noteq> 0 \<longrightarrow>
      (\<exists>msg. exportChartPng has_svg width height ImageError png fname = [ConsoleWarn msg])) \<and>
   downloadCsv cv None csvname = [] \<and>
   downloadCsv cv (Some []) csvname = []"
  by (simp add: exportChartPng_def downloadCsv_def)

theorem export_failures_are_silent_witness:
  "(\<exists>msg. exportChartPng True 0 300 ImageLoaded ''png'' (Some ''chart'') = [ConsoleWarn msg]) \<and>
   (\<exists>msg. exportChartPng True 400 300 ImageError ''png'' (Some ''chart'') = [ConsoleWarn msg])"
proof -
  have a: "True \<and> ((0::real) = 0 \<or> (300::real) = 0)" by simp
  have b: "True \<and> (400::real) \<noteq> 0 \<and> (300::real) \<noteq> 0" by simp
  note t = export_failures_are_silent [of True 0 300 ImageLoaded "''png''" "Some ''chart''" example_conv None]
  note u = export_failures_are_silent [of True 400 300 ImageLoaded "''png''" "Some ''chart''" example_conv None]
  from t [THEN conjunct1, THEN mp, OF a] u [THEN conjunct2, THEN conjunct1, THEN mp, OF b]
  show ?thesis by (rule conjI)
qed

section \<open>Renderers on empty data or zero width\<close>

lemma render_all_guarded:
  assumes g: "\<And>drawn rows width svg. length rows = 0 \<or> width = 0 \<Longrightarrow> effect drawn rows width svg = svg"
    and a: "all_guarded renders"
  shows "render_all effect renders svg = svg"
  using a
proof (induction renders)
  case Nil
  show ?case by (simp add: render_all_def)
next
  case (Cons r renders)
  obtain drawn rows width where r: "r = (drawn, rows, width)" by (cases r)
  from Cons.prems have h: "length rows = 0 \<or> width = 0" and rest: "all_guarded renders"
    by (simp_all add: all_guarded_def r)
  have "render_all effect (r # renders) svg = render_all effect renders (effect drawn rows width svg)"
    by (simp add: render_all_def r)
  also have "\<dots> = render_all effect renders svg"
    by (simp only: g [OF h])
  also have "\<dots> = svg" by (rule Cons.IH [OF rest])
  finally show ?case .
qed

text \<open>
  C8 (as amended). For every chart renderer (bar, line, donut, treemap, stacked bar), if
  the data array is empty or the measured container width is zero, rendering performs
  no drawing and throws nothing: the SVG's children are left as they were. So an SVG
  that has not been drawn into has no children after any number of such renders.
\<close>

theorem renderer_guard_leaves_svg:
  "(length rows = 0 \<or> width = 0 \<longrightarrow>
      BarChart_effect drawn rows width svg = svg \<and>
      LineChart_effect drawn rows width svg = svg \<and>
      DonutChart_effect drawn rows width svg = svg \<and>
      TreemapChart_effect drawn rows width svg = svg \<and>
      StackedBarChart_effect drawn rows width stackKeys svg = svg) \<and>
   (all_guarded renders \<longrightarrow>
      render_all BarChart_effect renders [] = [] \<and>
      render_all LineChart_effect renders [] = [] \<and>
      render_all DonutChart_effect renders [] = [] \<and>
      render_all TreemapChart_effect renders [] = [] \<and>
      render_all (\<lambda>drawn rows width. StackedBarChart_effect drawn rows width stackKeys) renders [] = [])"
proof -
  have one: "length rows = 0 \<or> width = 0 \<longrightarrow>
      BarChart_effect drawn rows width svg = svg \<and>
      LineChart_effect drawn rows width svg = svg \<and>
      DonutChart_effect drawn rows width svg = svg \<and>
      TreemapChart_effect drawn rows width svg = svg \<and>
      StackedBarChart_effect drawn rows width stackKeys svg = svg"
    by (simp add: BarChart_effect_def LineChart_effect_def DonutChart_effect_def
      TreemapChart_effect_def StackedBarChart_effect_def)
  have many: "render_all BarChart_effect renders [] = [] \<and>
      render_all LineChart_effect renders [] = [] \<and>
      render_all DonutChart_effect renders [] = [] \<and>
      render_all TreemapChart_effect renders [] = [] \<and>
      render_all (\<lambda>drawn rows width. StackedBarChart_effect drawn rows width stackKeys) renders [] = []"
    if a: "all_guarded renders"
  proof (intro conjI)
    show "render_all BarChart_effect renders [] = []"
      by (rule render_all_guarded [OF _ a]) (simp add: BarChart_effect_def)
    show "render_all LineChart_effect renders [] = []"
      by (rule render_all_guarded [OF _ a]) (simp add: LineChart_effect_def)
    show "render_all DonutChart_effect renders [] = []"
      by (rule render_all_guarded [OF _ a]) (simp add: DonutChart_effect_def)
    show "render_all TreemapChart_effect renders [] = []"
      by (rule render_all_guarded [OF _ a]) (simp add: TreemapChart_effect_def)
    show "render_all (\<lambda>drawn rows width. StackedBarChart_effect drawn rows width stackKeys) renders [] = []"
      by (rule render_all_guarded [OF _ a]) (auto simp: StackedBarChart_effect_def)
  qed
  from one many show ?thesis by blast
qed

theorem renderer_guard_leaves_svg_witness:
  "LineChart_effect [''g'', ''defs''] [] 600 [''g''] = [''g''] \<and>
   all_guarded [([''g'', ''defs''], [], 600), ([''g''], [ [(''label'', JStr ''TX''), (''value'', JNum 1)] ], 0)] \<and>
   render_all BarChart_effect
     [([''g'', ''defs''], [], 600), ([''g''], [ [(''label'', JStr ''TX''), (''value'', JNum 1)] ], 0)] [] = []"
proof -
  let ?renders = "[([''g'', ''defs''], [], 600), ([''g''], [ [(''label'', JStr ''TX''), (''value'', JNum 1)] ], 0)]
      :: (string list \<times> row list \<times> nat) list"
  have a: "length ([] :: row list) = 0 \<or> (600::nat) = 0" by simp
  have b: "all_guarded ?renders" by (simp add: all_guarded_def)
  note t = renderer_guard_leaves_svg [of "[]" 600 "[''g'', ''defs'']" "[''g'']" "[]" ?renders,
      THEN conjunct1, THEN mp, OF a, THEN conjunct2, THEN conjunct1]
  note u = renderer_guard_leaves_svg [of "[]" 600 "[''g'', ''defs'']" "[''g'']" "[]" ?renders,
      THEN conjunct2, THEN mp, OF b, THEN conjunct1]
  from t b u show ?thesis by (intro conjI)
qed

text \<open>
  The SVG is not left without children in general: the guard returns before
  \<open>svg.selectAll('*').remove()\<close>, so after a render with data a render with an empty
  array keeps the children of the earlier drawing.
\<close>

theorem renderer_stale_children_counterexample:
  "LineChart_effect [''g'', ''defs''] [ [(''year'', JNum 2024), (''value'', JNum 1)] ] 600 []
     = [''g'', ''defs''] \<and>
   LineChart_effect [] [] 600 [''g'', ''defs''] = [''g'', ''defs'']"
  by (simp add: LineChart_effect_def)

section \<open>The tooltip of the line chart\<close>











section \<open>Frame properties of the filter setters\<close>

text \<open>
  C10 (as amended). For every store state and every filter key among year, tradeType,
  mode, state, commodityGroup and port, \<open>setFilter key value\<close> changes only
  \<open>filters[key]\<close>, to the given value: every other filter key, the four dataset
  arrays and the loading and error flags are unchanged. \<open>resetFilters\<close> replaces the
  \<open>filters\<close> object by one that holds exactly those six keys, each with the empty
  string, so that any other key of the old object is gone; the four dataset arrays and
  the loading and error flags are unchanged.
\<close>

theorem setFilter_resetFilters_frame:
  "(key \<in> set filter_keys \<longrightarrow>
      filters (setFilter key v s) key = Some v \<and>
      (\<forall>k'. k' \<noteq> key \<longrightarrow> filters (setFilter key v s) k' = filters s k') \<and>
      same_data_and_flags s (setFilter key v s)) \<and>
   (\<forall>k. filters (resetFilters s) k = (if k \<in> set filter_keys then Some [] else None)) \<and>
   same_data_and_flags s (resetFilters s)"
  by (simp add: setFilter_def resetFilters_def same_data_and_flags_def filter_keys_def)

theorem setFilter_resetFilters_frame_witness:
  "''mode'' \<in> set filter_keys \<and>
   filters (setFilter ''mode'' ''Truck'' initial_store) ''mode'' = Some ''Truck'' \<and>
   filters (setFilter ''mode'' ''Truck'' initial_store) ''year'' = Some [] \<and>
   loading (setFilter ''mode'' ''Truck'' initial_store) \<and>
   filters (resetFilters (setFilter ''mode'' ''Truck'' initial_store)) ''mode'' = Some [] \<and>
   filters (resetFilters (setFilter ''mode'' ''Truck'' initial_store)) ''region'' = None"
proof -
  have k: "''mode'' \<in> set filter_keys"
    by (simp add: filter_keys_def)
  have y: "''year'' \<noteq> ''mode''"
    by simp
  note f = setFilter_resetFilters_frame [of "''mode''" "''Truck''" initial_store]
  note g = setFilter_resetFilters_frame
    [of "''mode''" "''Truck''" "setFilter ''mode'' ''Truck'' initial_store"]
  note A = f [THEN conjunct1, THEN mp, OF k]
  note a = A [THEN conjunct1]
  note b = A [THEN conjunct2, THEN conjunct1, THEN spec, of "''year''", THEN mp, OF y]
  note c = A [THEN conjunct2, THEN conjunct2]
  note d = g [THEN conjunct2, THEN conjunct1, THEN spec, of "''mode''"]
  note e = g [THEN conjunct2, THEN conjunct1, THEN spec, of "''region''"]
  from b have b': "filters (setFilter ''mode'' ''Truck'' initial_store) ''year'' = Some []"
    by (simp add: initial_store_def)
  from c have c': "loading (setFilter ''mode'' ''Truck'' initial_store)"
    by (simp add: same_data_and_flags_def initial_store_def)
  from d have d': "filters (resetFilters (setFilter ''mode'' ''Truck'' initial_store)) ''mode'' = Some []"
    by (simp add: filter_keys_def)
  from e have e': "filters (resetFilters (setFilter ''mode'' ''Truck'' initial_store)) ''region'' = None"
    by (simp add: filter_keys_def)
  show ?thesis
    by (intro conjI k a b' c' d' e')
qed

text \<open>
  The claim as first stated (\<open>resetFilters\<close> changes nothing but the six keys, in every
  store state) fails in a state whose \<open>filters\<close> object has a seventh key, which
  \<open>setFilter\<close> adds when it is called with a key outside the six:
  \<open>resetFilters\<close> replaces the whole object and the key is gone.
\<close>

theorem resetFilters_drops_key_counterexample:
  "''region'' \<notin> set filter_keys \<and>
   filters (setFilter ''region'' ''Laredo'' initial_store) ''region'' = Some ''Laredo'' \<and>
   filters (resetFilters (setFilter ''region'' ''Laredo'' initial_store)) ''region'' = None"
  by (simp add: filter_keys_def setFilter_def resetFilters_def initial_store_def)
end
